theory Spec2Isabelle
  imports Complex_Main
begin

section \<open>Common types\<close>

text \<open>
  A QuantLib \<^verbatim>\<open>Date\<close> is its serial number, so dates are integers: \<^verbatim>\<open>d + n\<close> adds days and
  \<^verbatim>\<open>d2 - d1\<close> is a number of days. \<^verbatim>\<open>Real\<close>, \<^verbatim>\<open>Rate\<close>, \<^verbatim>\<open>Time\<close> and
  \<^verbatim>\<open>Probability\<close> are C++ doubles; they are modelled by the mathematical reals, so rounding
  and overflow are not part of the model. What a double can be besides a finite number is
  made explicit where the code can produce it: the sentinel \<^verbatim>\<open>Null<Real>()\<close> and the result
  of a division by zero (an infinity or a NaN).
\<close>

type_synonym Date = int

datatype number = NullValue | Number real | InfOrNaN

datatype error = Require string | Fail string | Undefined string

text \<open>The C++ division of two doubles: a zero divisor gives an infinity or a NaN. With a
  divisor that is not zero the result is the quotient of the reals; that the quotient of
  two doubles can overflow to an infinity when the divisor is very small is not modelled,
  so \<open>Number\<close> says nothing about the size of the double.\<close>

definition fdiv :: "real \<Rightarrow> real \<Rightarrow> number" where
  "fdiv x y = (if y = 0 then InfOrNaN else Number (x / y))"

text \<open>The C++ division of two integers truncates towards zero.\<close>

definition tdiv :: "int \<Rightarrow> int \<Rightarrow> int" where
  "tdiv k l = sgn k * sgn l * (\<bar>k\<bar> div \<bar>l\<bar>)"

section \<open>The mid-point CDS engine\<close>

subsection \<open>Instrument arguments, market data and results\<close>

record cashflow =
  date :: Date
  amount :: real

record coupon = cashflow +
  accrualStartDate :: Date
  accrualEndDate :: Date
  nominal :: real
  accruedAmount :: "Date \<Rightarrow> real"

text \<open>An element of the leg is a \<^verbatim>\<open>CashFlow\<close>; the dynamic cast to \<^verbatim>\<open>Coupon\<close> succeeds on
  the second constructor only.\<close>

datatype leg_cashflow = SimpleCashFlow cashflow | Coupon coupon

fun leg_date :: "leg_cashflow \<Rightarrow> Date" where
  "leg_date (SimpleCashFlow s) = date s"
| "leg_date (Coupon c) = date c"

text \<open>The two enumerations; the last constructor of each stands for a value outside the
  enumerators, which the code rejects in its \<^verbatim>\<open>else\<close> and \<^verbatim>\<open>default\<close> branches.\<close>

datatype side = Buyer | Seller | UnknownSide

datatype payment_time = atDefault | atPeriodEnd | atMaturity | UnknownPaymentTime

record arguments =
  side :: side
  notional :: real
  upfront :: "real option"
  spread :: real
  leg :: "leg_cashflow list"
  upfrontPayment :: "cashflow option"
  accrualRebate :: "cashflow option"
  accrualRebateCurrent :: "cashflow option"
  settlesAccrual :: bool
  protectionStart :: Date
  maturity :: Date
  protectionPaymentTime :: payment_time
  claim :: "Date \<Rightarrow> real \<Rightarrow> real \<Rightarrow> real"

text \<open>
  The engine with the market objects it reads: the evaluation date of the settings, the
  discount curve (its reference date and \<^verbatim>\<open>discount\<close>), the default-probability curve, the
  recovery rate, and \<^verbatim>\<open>Event::hasOccurred\<close> of the cash flows, a function of the event's
  date, the reference date and the optional flag. These are library objects, taken as
  parameters.
\<close>

record engine =
  evaluationDate :: Date
  referenceDate :: Date
  discount :: "Date \<Rightarrow> real"
  includeSettlementDateFlows :: "bool option"
  hasOccurred :: "Date \<Rightarrow> Date \<Rightarrow> bool option \<Rightarrow> bool"
  survivalProbability :: "Date \<Rightarrow> real"
  defaultProbability :: "Date \<Rightarrow> Date \<Rightarrow> real"
  recoveryRate :: real

datatype any = AnyReal real | AnyNumber number | AnyReals "real list" | AnyDates "Date list"

record results =
  results_value :: real
  errorEstimate :: number
  upfrontNPV :: real
  accrualRebateNPV :: real
  accrualRebateNPVCurrent :: real
  couponLegNPV :: real
  defaultLegNPV :: real
  fairSpreadDirty :: number
  fairSpreadClean :: number
  fairUpfront :: number
  couponLegBPS :: number
  upfrontBPS :: number
  additionalResults :: "string \<rightharpoonup> any"

text \<open>The four vectors local to \<^verbatim>\<open>calculate\<close>.\<close>

record loop_vectors =
  protectionPaymentDates :: "Date list"
  midpointDiscounts :: "real list"
  expectedLosses :: "real list"
  defaultProbabilities :: "real list"

subsection \<open>MidPointCdsEngine::expectedLoss\<close>

definition expectedLoss :: "engine \<Rightarrow> arguments \<Rightarrow> Date \<Rightarrow> Date \<Rightarrow> Date \<Rightarrow> real \<Rightarrow> real" where
  "expectedLoss eng a defaultDate d1 d2 notional' =
     claim a defaultDate notional' (recoveryRate eng) * defaultProbability eng d1 d2"

text \<open>Modelled from the spec: the claim object is a library class that is not part of the
  sources; for a standard claim the spec gives the amount as the notional times one minus
  the recovery rate.\<close>

definition faceValueClaim :: "Date \<Rightarrow> real \<Rightarrow> real \<Rightarrow> real" where
  "faceValueClaim d notional' recoveryRate' = notional' * (1 - recoveryRate')"

subsection \<open>MidPointCdsEngineBase::calculate\<close>

text \<open>Lines 77 to 100: upfront amount, accrual rebates, and the two legs set to zero.
  The result is the local \<^verbatim>\<open>upfPVO1\<close> and the results so far.\<close>

definition flows_before_leg :: "engine \<Rightarrow> arguments \<Rightarrow> Date \<Rightarrow> results \<Rightarrow> real \<times> results" where
  "flows_before_leg eng a settlementDate r =
    (let r1 = r\<lparr>upfrontNPV := 0\<rparr>;
         (upfPVO1, r2) =
           (case upfrontPayment a of
              Some up \<Rightarrow>
                if \<not> hasOccurred eng (date up) settlementDate (includeSettlementDateFlows eng)
                then (discount eng (date up),
                      r1\<lparr>upfrontNPV := discount eng (date up) * amount up\<rparr>)
                else (0, r1)
            | None \<Rightarrow> (0, r1));
         r3 = r2\<lparr>accrualRebateNPV := 0, accrualRebateNPVCurrent := 0\<rparr>;
         r4 =
           (case accrualRebate a of
              Some reb \<Rightarrow>
                if \<not> hasOccurred eng (date reb) settlementDate (includeSettlementDateFlows eng)
                then r3\<lparr>accrualRebateNPV := discount eng (date reb) * amount reb\<rparr>
                else r3
            | None \<Rightarrow> r3);
         r5 =
           (case accrualRebateCurrent a of
              Some reb \<Rightarrow>
                if \<not> hasOccurred eng (date reb) settlementDate (includeSettlementDateFlows eng)
                then r4\<lparr>accrualRebateNPVCurrent := discount eng (date reb) * amount reb\<rparr>
                else r4
            | None \<Rightarrow> r4)
     in (upfPVO1, r5\<lparr>couponLegNPV := 0, defaultLegNPV := 0\<rparr>))"

text \<open>Lines 111 to 158: the body of the loop for a cash flow that has not occurred.\<close>

definition leg_step ::
  "engine \<Rightarrow> arguments \<Rightarrow> Date \<Rightarrow> nat \<Rightarrow> leg_cashflow \<Rightarrow> results \<times> loop_vectors
     \<Rightarrow> error + results \<times> loop_vectors" where
  "leg_step eng a today i cf rv =
    (case cf of
       SimpleCashFlow s \<Rightarrow>
         Inl (Require ''MidPointCdsEngine: expected coupon, simple cashflows are not allowed'')
     | Coupon c \<Rightarrow>
        (let (r, v) = rv;
             paymentDate = date c;
             startDate = (if i = 0 then protectionStart a else accrualStartDate c);
             endDate = accrualEndDate c;
             effectiveStartDate =
               (if startDate \<le> today \<and> today \<le> endDate then today else startDate);
             defaultDate = effectiveStartDate + tdiv (endDate - effectiveStartDate) 2;
             S = survivalProbability eng paymentDate;
             P = defaultProbability eng effectiveStartDate endDate
         in case (case protectionPaymentTime a of
                    atDefault \<Rightarrow> Inr defaultDate
                  | atPeriodEnd \<Rightarrow> Inr paymentDate
                  | atMaturity \<Rightarrow> Inr (maturity a)
                  | UnknownPaymentTime \<Rightarrow> Inl (Fail ''protectionPaymentTime not handled'')) of
              Inl e \<Rightarrow> Inl e
            | Inr protectionPaymentDate \<Rightarrow>
               (let r1 = r\<lparr>couponLegNPV :=
                            couponLegNPV r + S * amount c * discount eng paymentDate\<rparr>;
                    r2 = (if settlesAccrual a
                          then r1\<lparr>couponLegNPV :=
                                   couponLegNPV r1 + P * accruedAmount c defaultDate
                                     * discount eng protectionPaymentDate\<rparr>
                          else r1);
                    midpointDiscount = discount eng protectionPaymentDate;
                    expectLoss =
                      expectedLoss eng a defaultDate effectiveStartDate endDate (nominal c);
                    r3 = r2\<lparr>defaultLegNPV := defaultLegNPV r2 + expectLoss * midpointDiscount\<rparr>
                in Inr (r3,
                        v\<lparr>protectionPaymentDates :=
                             protectionPaymentDates v @ [protectionPaymentDate],
                          midpointDiscounts := midpointDiscounts v @ [midpointDiscount],
                          expectedLosses := expectedLosses v @ [expectLoss],
                          defaultProbabilities := defaultProbabilities v @ [P]\<rparr>))))"

text \<open>Lines 107 to 159: the loop over the leg, from index \<open>i\<close> on. A cash flow that has
  occurred is skipped; an error ends the calculation.\<close>

fun leg_loop ::
  "engine \<Rightarrow> arguments \<Rightarrow> Date \<Rightarrow> Date \<Rightarrow> nat \<Rightarrow> leg_cashflow list \<Rightarrow> results \<times> loop_vectors
     \<Rightarrow> error + results \<times> loop_vectors" where
  "leg_loop eng a today settlementDate i [] rv = Inr rv"
| "leg_loop eng a today settlementDate i (cf # cfs) rv =
    (if hasOccurred eng (leg_date cf) settlementDate (includeSettlementDateFlows eng)
     then leg_loop eng a today settlementDate (Suc i) cfs rv
     else case leg_step eng a today i cf rv of
            Inl e \<Rightarrow> Inl e
          | Inr rv' \<Rightarrow> leg_loop eng a today settlementDate (Suc i) cfs rv')"

text \<open>Lines 74 to 164: everything before the sign convention.\<close>

definition accumulate :: "engine \<Rightarrow> arguments \<Rightarrow> results \<Rightarrow> error + real \<times> results" where
  "accumulate eng a r =
    (let today = evaluationDate eng;
         settlementDate = referenceDate eng;
         (upfPVO1, r1) = flows_before_leg eng a settlementDate r
     in case leg_loop eng a today settlementDate 0 (leg a)
               (r1, \<lparr>protectionPaymentDates = [], midpointDiscounts = [],
                     expectedLosses = [], defaultProbabilities = []\<rparr>) of
          Inl e \<Rightarrow> Inl e
        | Inr (r2, v) \<Rightarrow>
            Inr (upfPVO1,
                 r2\<lparr>additionalResults := (additionalResults r2)
                      (''protectionPaymentDates'' \<mapsto> AnyDates (protectionPaymentDates v),
                       ''midpointDiscounts'' \<mapsto> AnyReals (midpointDiscounts v),
                       ''expectedLosses'' \<mapsto> AnyReals (expectedLosses v),
                       ''defaultProbabilities'' \<mapsto> AnyReals (defaultProbabilities v))\<rparr>))"

text \<open>Lines 166 to 180: the sign convention. The result is the local \<^verbatim>\<open>upfrontSign\<close> and
  the results.\<close>

definition sign_convention :: "side \<Rightarrow> results \<Rightarrow> error + real \<times> results" where
  "sign_convention s r =
    (case s of
       Seller \<Rightarrow>
         Inr (1, r\<lparr>defaultLegNPV := defaultLegNPV r * (- 1),
                   accrualRebateNPV := accrualRebateNPV r * (- 1),
                   accrualRebateNPVCurrent := accrualRebateNPVCurrent r * (- 1)\<rparr>)
     | Buyer \<Rightarrow>
         Inr (- 1, r\<lparr>couponLegNPV := couponLegNPV r * (- 1),
                     upfrontNPV := upfrontNPV r * (- 1)\<rparr>)
     | UnknownSide \<Rightarrow> Inl (Fail ''unknown protection side''))"

definition basisPoint :: real where
  "basisPoint = 1 / 10 ^ 4"

text \<open>Lines 182 to 215: the value and the derived outputs.\<close>

definition derived_outputs :: "arguments \<Rightarrow> real \<Rightarrow> real \<Rightarrow> results \<Rightarrow> results" where
  "derived_outputs a upfPVO1 upfrontSign r =
    (let r1 = r\<lparr>results_value :=
                 defaultLegNPV r + couponLegNPV r + upfrontNPV r + accrualRebateNPV r,
               errorEstimate := NullValue\<rparr>;
         r2 = (if couponLegNPV r1 \<noteq> 0
               then r1\<lparr>fairSpreadDirty :=
                        fdiv (- defaultLegNPV r1 * spread a)
                             (couponLegNPV r1 + accrualRebateNPV r1),
                       fairSpreadClean :=
                        fdiv (- defaultLegNPV r1 * spread a)
                             (couponLegNPV r1 + accrualRebateNPVCurrent r1)\<rparr>
               else r1\<lparr>fairSpreadDirty := NullValue, fairSpreadClean := NullValue\<rparr>);
         upfrontSensitivity = upfPVO1 * notional a;
         r3 = (if upfrontSensitivity > 0
               then r2\<lparr>fairUpfront :=
                        fdiv (- upfrontSign
                               * (defaultLegNPV r2 + couponLegNPV r2 + accrualRebateNPV r2))
                             upfrontSensitivity\<rparr>
               else r2\<lparr>fairUpfront := NullValue\<rparr>);
         r4 = (if spread a \<noteq> 0
               then r3\<lparr>couponLegBPS := fdiv (couponLegNPV r3 * basisPoint) (spread a)\<rparr>
               else r3\<lparr>couponLegBPS := NullValue\<rparr>)
     in case upfront a of
          Some u \<Rightarrow>
            if u \<noteq> 0 then r4\<lparr>upfrontBPS := fdiv (upfrontNPV r4 * basisPoint) u\<rparr>
            else r4\<lparr>upfrontBPS := NullValue\<rparr>
        | None \<Rightarrow> r4\<lparr>upfrontBPS := NullValue\<rparr>)"

text \<open>Lines 217 to 228: the additional results. Line 217 reads the amount of the
  upfront payment through the pointer without a test; on a null pointer the behaviour is
  undefined, which is the error value here.\<close>

definition record_additional :: "arguments \<Rightarrow> results \<Rightarrow> error + results" where
  "record_additional a r =
    (case upfrontPayment a of
       None \<Rightarrow> Inl (Undefined ''arguments.upfrontPayment is null'')
     | Some up \<Rightarrow>
         Inr (r\<lparr>additionalResults := (additionalResults r)
                 (''upfrontPremium'' \<mapsto> AnyReal (amount up),
                  ''upfrontPremiumNPV'' \<mapsto> AnyReal (upfrontNPV r),
                  ''premiumLegNPVDirty'' \<mapsto> AnyReal (couponLegNPV r),
                  ''premiumLegNPVClean'' \<mapsto> AnyReal (couponLegNPV r + accrualRebateNPVCurrent r),
                  ''accrualRebateNPV'' \<mapsto> AnyReal (accrualRebateNPV r),
                  ''accrualRebateNPVCurrent'' \<mapsto> AnyReal (accrualRebateNPVCurrent r),
                  ''protectionLegNPV'' \<mapsto> AnyReal (defaultLegNPV r),
                  ''fairSpreadDirty'' \<mapsto> AnyNumber (fairSpreadDirty r),
                  ''fairSpreadClean'' \<mapsto> AnyNumber (fairSpreadClean r),
                  ''fairUpfront'' \<mapsto> AnyNumber (fairUpfront r),
                  ''couponLegBPS'' \<mapsto> AnyNumber (couponLegBPS r),
                  ''upfrontBPS'' \<mapsto> AnyNumber (upfrontBPS r))\<rparr>))"

text \<open>The whole of \<^verbatim>\<open>calculate(refDate, arguments, results)\<close>; the body never reads
  \<^verbatim>\<open>refDate\<close>.\<close>

definition calculate :: "engine \<Rightarrow> Date \<Rightarrow> arguments \<Rightarrow> results \<Rightarrow> error + results" where
  "calculate eng refDate a r =
    (case accumulate eng a r of
       Inl e \<Rightarrow> Inl e
     | Inr (upfPVO1, r1) \<Rightarrow>
        (case sign_convention (side a) r1 of
           Inl e \<Rightarrow> Inl e
         | Inr (upfrontSign, r2) \<Rightarrow>
             record_additional a (derived_outputs a upfPVO1 upfrontSign r2)))"

subsection \<open>The terms of the two legs, written out\<close>

text \<open>The dates of the period of coupon \<open>c\<close> at index \<open>i\<close> of the leg: the period starts at
  the protection start for the first element of the leg and at the accrual start
  otherwise; the effective start is the evaluation date when that lies in the period; the
  default date is the mid-point of effective start and period end; the protection payment
  date follows the policy of the arguments (for a policy outside the three enumerators
  the calculation fails, and the value given here is never used).\<close>

definition period_start :: "arguments \<Rightarrow> nat \<Rightarrow> coupon \<Rightarrow> Date" where
  "period_start a i c = (if i = 0 then protectionStart a else accrualStartDate c)"

definition effective_start :: "engine \<Rightarrow> arguments \<Rightarrow> nat \<Rightarrow> coupon \<Rightarrow> Date" where
  "effective_start eng a i c =
     (if period_start a i c \<le> evaluationDate eng \<and> evaluationDate eng \<le> accrualEndDate c
      then evaluationDate eng else period_start a i c)"

definition midpoint_date :: "engine \<Rightarrow> arguments \<Rightarrow> nat \<Rightarrow> coupon \<Rightarrow> Date" where
  "midpoint_date eng a i c =
     effective_start eng a i c + tdiv (accrualEndDate c - effective_start eng a i c) 2"

definition protection_payment_date :: "engine \<Rightarrow> arguments \<Rightarrow> nat \<Rightarrow> coupon \<Rightarrow> Date" where
  "protection_payment_date eng a i c =
     (case protectionPaymentTime a of
        atPeriodEnd \<Rightarrow> date c
      | atMaturity \<Rightarrow> maturity a
      | _ \<Rightarrow> midpoint_date eng a i c)"

text \<open>What one coupon adds to the default leg and to the coupon leg.\<close>

definition default_term :: "engine \<Rightarrow> arguments \<Rightarrow> nat \<times> coupon \<Rightarrow> real" where
  "default_term eng a ic =
     (case ic of (i, c) \<Rightarrow>
        expectedLoss eng a (midpoint_date eng a i c) (effective_start eng a i c)
          (accrualEndDate c) (nominal c)
        * discount eng (protection_payment_date eng a i c))"

definition coupon_term :: "engine \<Rightarrow> arguments \<Rightarrow> nat \<times> coupon \<Rightarrow> real" where
  "coupon_term eng a ic =
     (case ic of (i, c) \<Rightarrow>
        survivalProbability eng (date c) * amount c * discount eng (date c)
        + (if settlesAccrual a
           then defaultProbability eng (effective_start eng a i c) (accrualEndDate c)
                  * accruedAmount c (midpoint_date eng a i c)
                  * discount eng (protection_payment_date eng a i c)
           else 0))"

text \<open>The coupons of the leg that have not occurred at the settlement date, with their
  positions in the leg.\<close>

fun live_coupons :: "engine \<Rightarrow> nat \<Rightarrow> leg_cashflow list \<Rightarrow> (nat \<times> coupon) list" where
  "live_coupons eng i [] = []"
| "live_coupons eng i (SimpleCashFlow s # cfs) = live_coupons eng (Suc i) cfs"
| "live_coupons eng i (Coupon c # cfs) =
     (if hasOccurred eng (date c) (referenceDate eng) (includeSettlementDateFlows eng)
      then live_coupons eng (Suc i) cfs
      else (i, c) # live_coupons eng (Suc i) cfs)"

text \<open>The discounted amount of an optional cash flow that has not occurred, and the
  discount factor of the upfront payment.\<close>

definition flow_npv :: "engine \<Rightarrow> cashflow option \<Rightarrow> real" where
  "flow_npv eng cfo =
     (case cfo of
        Some cf \<Rightarrow>
          if hasOccurred eng (date cf) (referenceDate eng) (includeSettlementDateFlows eng)
          then 0 else discount eng (date cf) * amount cf
      | None \<Rightarrow> 0)"

definition upfront_pv01 :: "engine \<Rightarrow> arguments \<Rightarrow> real" where
  "upfront_pv01 eng a =
     (case upfrontPayment a of
        Some cf \<Rightarrow>
          if hasOccurred eng (date cf) (referenceDate eng) (includeSettlementDateFlows eng)
          then 0 else discount eng (date cf)
      | None \<Rightarrow> 0)"

text \<open>The loop succeeds when every cash flow that has not occurred is a coupon and the
  payment policy is one of the three enumerators.\<close>

definition leg_ok :: "engine \<Rightarrow> arguments \<Rightarrow> bool" where
  "leg_ok eng a \<longleftrightarrow>
     (\<forall>cf \<in> set (leg a).
        \<not> hasOccurred eng (leg_date cf) (referenceDate eng) (includeSettlementDateFlows eng)
        \<longrightarrow> (\<exists>c. cf = Coupon c) \<and> protectionPaymentTime a \<noteq> UnknownPaymentTime)"

subsection \<open>An example instrument\<close>

text \<open>The scenario of the specification: a single remaining quarterly coupon of 2,500 on
  a notional of 1,000,000, recovery rate 0.4, survival probability 0.98 at the payment
  date, default probability 0.02 over the period, discount factor 0.995 at the mid-point
  and 0.99 elsewhere; protection is paid at default and accrual is not settled.\<close>

definition example_coupon :: coupon where
  "example_coupon =
     \<lparr>date = 45090, amount = 2500, accrualStartDate = 45000, accrualEndDate = 45090,
      nominal = 1000000, accruedAmount = (\<lambda>d. 2500 * real_of_int (d - 45000) / 90)\<rparr>"

definition example_engine :: engine where
  "example_engine =
     \<lparr>evaluationDate = 45000, referenceDate = 45000,
      discount = (\<lambda>d. if d = 45045 then 995 / 1000 else 99 / 100),
      includeSettlementDateFlows = None,
      hasOccurred = (\<lambda>d refDate include. d \<le> refDate),
      survivalProbability = (\<lambda>d. 98 / 100),
      defaultProbability = (\<lambda>d1 d2. 2 / 100),
      recoveryRate = 4 / 10\<rparr>"

definition example_arguments :: arguments where
  "example_arguments =
     \<lparr>side = Buyer, notional = 1000000, upfront = None, spread = 1 / 100,
      leg = [Coupon example_coupon],
      upfrontPayment = Some \<lparr>date = 45003, amount = 0\<rparr>,
      accrualRebate = None, accrualRebateCurrent = None,
      settlesAccrual = False, protectionStart = 45000, maturity = 45090,
      protectionPaymentTime = atDefault, claim = faceValueClaim\<rparr>"

definition blank_results :: results where
  "blank_results =
     \<lparr>results_value = 0, errorEstimate = NullValue, upfrontNPV = 0, accrualRebateNPV = 0,
      accrualRebateNPVCurrent = 0, couponLegNPV = 0, defaultLegNPV = 0,
      fairSpreadDirty = NullValue, fairSpreadClean = NullValue, fairUpfront = NullValue,
      couponLegBPS = NullValue, upfrontBPS = NullValue, additionalResults = Map.empty\<rparr>"

text \<open>A second market, with discount factors and survival probabilities equal to one, and
  the example instrument with accrual rebates equal to the coupon amount.\<close>

definition flat_engine :: engine where
  "flat_engine =
     \<lparr>evaluationDate = 45000, referenceDate = 45000,
      discount = (\<lambda>d. 1),
      includeSettlementDateFlows = None,
      hasOccurred = (\<lambda>d refDate include. d \<le> refDate),
      survivalProbability = (\<lambda>d. 1),
      defaultProbability = (\<lambda>d1 d2. 0),
      recoveryRate = 4 / 10\<rparr>"

definition rebate_arguments :: arguments where
  "rebate_arguments =
     example_arguments\<lparr>accrualRebate := Some \<lparr>date = 45003, amount = 2500\<rparr>,
                        accrualRebateCurrent := Some \<lparr>date = 45003, amount = 2500\<rparr>\<rparr>"

section \<open>The year-on-year inflation curve observer\<close>

subsection \<open>Quotes, conventions and the curve\<close>

text \<open>
  A \<^verbatim>\<open>Handle<Quote>\<close> refers to a quote that lives outside the curve. The quotes are kept in
  a store that gives the current value of each quote, and a handle is the name of its
  quote in the store; an empty handle and an invalid quote are not modelled.
\<close>

type_synonym Time = real

type_synonym quote_store = "nat \<Rightarrow> real"

text \<open>
  What the constructor takes from its base classes and arguments: the inflation period of
  a date at the frequency of the curve, the time of a date from the reference date under
  the day counter, the comparison \<^verbatim>\<open>close\<close> of two times, and whether the index is
  interpolated. These are library functions, taken as parameters.
\<close>

record conventions =
  inflationPeriod :: "Date \<Rightarrow> Date \<times> Date"
  timeFromReference :: "Date \<Rightarrow> Time"
  close :: "Time \<Rightarrow> Time \<Rightarrow> bool"
  indexIsInterpolated :: bool

text \<open>
  The members of the curve. The interpolation object is given by the interpolation scheme
  (the template parameter, a function of the node times, the node values and a time, with
  extrapolation allowed) and by the nodes it was last built over. The flag \<open>dirty\<close> and the
  two counters belong to the base classes described below.
\<close>

record curve =
  curve_dates :: "Date list"
  curve_quotes :: "nat list"
  curve_times :: "Time list"
  curve_data :: "real list"
  curve_interpolation :: "Time list \<times> real list"
  interpolator :: "Time list \<Rightarrow> real list \<Rightarrow> Time \<Rightarrow> real"
  baseRate :: real
  dirty :: bool
  recalculations :: nat
  notifications :: nat

subsection \<open>The constructor\<close>

text \<open>Lines 140 to 142: the data vector is resized from empty, so every element is zero,
  and the loop sets the first element to zero once per date.\<close>

definition initial_data :: "nat \<Rightarrow> real list" where
  "initial_data n = foldl (\<lambda>d i. d[0 := 0]) (replicate n 0) [0..<n]"

text \<open>Lines 146 to 158: the loop over the indices from 1 on, with its three checks.\<close>

fun node_loop ::
  "conventions \<Rightarrow> Date list \<Rightarrow> real list \<Rightarrow> nat list \<Rightarrow> Time list \<Rightarrow> error + Time list" where
  "node_loop cv ds da [] ts = Inr ts"
| "node_loop cv ds da (i # is) ts =
    (if \<not> ds ! i > ds ! (i - 1) then Inl (Require ''dates not sorted'')
     else if \<not> da ! i > - 1 then Inl (Require ''zero inflation data < -100 %'')
     else let ts' = ts[i := timeFromReference cv (ds ! i)]
          in if close cv (ts' ! i) (ts' ! (i - 1))
             then Inl (Require ''two dates correspond to the same time'')
             else node_loop cv ds da is ts')"

text \<open>
  The constructor. The initialiser of the base class reads \<^verbatim>\<open>rates[0]->value()\<close> before the
  body runs; on an empty vector of quotes the behaviour is undefined, which is the error
  value here. The body then checks the number of dates, pulls the dates back to the start
  of their inflation periods if the index is not interpolated, checks the number of
  quotes, and fills the data and the times. Registering with the quotes leaves the members
  as they are: the curve is notified of a change of any quote in \<open>curve_quotes\<close>.
\<close>

definition construct ::
  "conventions \<Rightarrow> (Time list \<Rightarrow> real list \<Rightarrow> Time \<Rightarrow> real) \<Rightarrow> quote_store
     \<Rightarrow> Date list \<Rightarrow> nat list \<Rightarrow> error + curve" where
  "construct cv interp store dates rates =
    (case rates of
       [] \<Rightarrow> Inl (Undefined ''rates[0] of an empty vector'')
     | q0 # _ \<Rightarrow>
        if \<not> length dates > 1 then Inl (Require ''too few dates'')
        else
          let ds = (if \<not> indexIsInterpolated cv
                    then map (\<lambda>d. fst (inflationPeriod cv d)) dates else dates)
          in if length rates \<noteq> length ds then Inl (Require ''quotes/dates count mismatch'')
             else
               let da = initial_data (length ds);
                   ts0 = (replicate (length ds) 0)[0 := timeFromReference cv (ds ! 0)]
               in case node_loop cv ds da [1..<length ds] ts0 of
                    Inl e \<Rightarrow> Inl e
                  | Inr ts \<Rightarrow>
                      Inr \<lparr>curve_dates = ds, curve_quotes = rates, curve_times = ts,
                           curve_data = da, curve_interpolation = (ts, da),
                           interpolator = interp, baseRate = store q0, dirty = True,
                           recalculations = 0, notifications = 0\<rparr>)"

subsection \<open>Recalculation\<close>

text \<open>Lines 241 and 242: the loop that copies the quotes into the data, over the given
  indices. An index outside the quotes or the data is undefined behaviour.\<close>

fun copy_quotes :: "quote_store \<Rightarrow> nat list \<Rightarrow> nat list \<Rightarrow> real list \<Rightarrow> error + real list" where
  "copy_quotes store qs [] da = Inr da"
| "copy_quotes store qs (i # is) da =
    (if i < length qs \<and> i < length da
     then copy_quotes store qs is (da[i := store (qs ! i)])
     else Inl (Undefined ''index out of range''))"

definition performCalculations :: "quote_store \<Rightarrow> curve \<Rightarrow> error + curve" where
  "performCalculations store c =
    (case copy_quotes store (curve_quotes c) [0..<length (curve_dates c)] (curve_data c) of
       Inl e \<Rightarrow> Inl e
     | Inr da \<Rightarrow> Inr (c\<lparr>curve_data := da, curve_interpolation := (curve_times c, da)\<rparr>))"

subsection \<open>The base classes\<close>

text \<open>Modelled from the spec: \<^verbatim>\<open>LazyObject\<close> and \<^verbatim>\<open>YoYInflationTermStructure\<close> are library
  classes whose code is not part of the sources. The spec says that the curve keeps a
  dirty flag, that requesting a value forces a recalculation if the curve is dirty, and
  that \<^verbatim>\<open>update\<close> sets the dirty flag, does not itself recompute, and passes the notification
  on to the dependents. A new curve is dirty: its data are zero until the first
  recalculation copies the quotes. The counter \<open>recalculations\<close> counts the calls of
  \<^verbatim>\<open>performCalculations\<close> and \<open>notifications\<close> the notifications sent to the dependents;
  they are not members of the class.\<close>

definition LazyObject_calculate :: "quote_store \<Rightarrow> curve \<Rightarrow> error + curve" where
  "LazyObject_calculate store c =
    (if dirty c
     then case performCalculations store c of
            Inl e \<Rightarrow> Inl e
          | Inr c' \<Rightarrow> Inr (c'\<lparr>dirty := False, recalculations := recalculations c' + 1\<rparr>)
     else Inr c)"

definition LazyObject_update :: "curve \<Rightarrow> curve" where
  "LazyObject_update c = c\<lparr>dirty := True\<rparr>"

definition TermStructure_update :: "curve \<Rightarrow> curve" where
  "TermStructure_update c = c\<lparr>notifications := notifications c + 1\<rparr>"

subsection \<open>The observer interface and the inspectors\<close>

definition update :: "curve \<Rightarrow> curve" where
  "update c = TermStructure_update (LazyObject_update c)"

definition yoyRateImpl :: "quote_store \<Rightarrow> curve \<Rightarrow> Time \<Rightarrow> error + real \<times> curve" where
  "yoyRateImpl store c t =
    (case LazyObject_calculate store c of
       Inl e \<Rightarrow> Inl e
     | Inr c' \<Rightarrow>
         Inr (interpolator c' (fst (curve_interpolation c')) (snd (curve_interpolation c')) t, c'))"

definition rates :: "quote_store \<Rightarrow> curve \<Rightarrow> error + real list \<times> curve" where
  "rates store c =
    (case LazyObject_calculate store c of
       Inl e \<Rightarrow> Inl e
     | Inr c' \<Rightarrow> Inr (curve_data c', c'))"

definition data :: "quote_store \<Rightarrow> curve \<Rightarrow> error + real list \<times> curve" where
  "data store c =
    (case LazyObject_calculate store c of
       Inl e \<Rightarrow> Inl e
     | Inr c' \<Rightarrow> Inr (curve_data c', c'))"

text \<open>Lines 227 to 230: one pair per date; an index outside the data is undefined
  behaviour.\<close>

definition nodes :: "quote_store \<Rightarrow> curve \<Rightarrow> error + (Date \<times> real) list \<times> curve" where
  "nodes store c =
    (case LazyObject_calculate store c of
       Inl e \<Rightarrow> Inl e
     | Inr c' \<Rightarrow>
         if length (curve_dates c') \<le> length (curve_data c')
         then Inr (map (\<lambda>i. (curve_dates c' ! i, curve_data c' ! i)) [0..<length (curve_dates c')],
                   c')
         else Inl (Undefined ''index out of range''))"

text \<open>Modelled from the spec: a quote is an observable scalar with a change notification,
  a library class. Setting the value of a quote changes the store and calls \<^verbatim>\<open>update\<close> of
  the curve if the curve is registered with the quote.\<close>

definition setValue :: "nat \<Rightarrow> real \<Rightarrow> quote_store \<times> curve \<Rightarrow> quote_store \<times> curve" where
  "setValue q v sc =
    (case sc of (store, c) \<Rightarrow>
       (store(q := v), if q \<in> set (curve_quotes c) then update c else c))"

text \<open>A sequence of consecutive calls of \<^verbatim>\<open>yoyRateImpl\<close>, at the given times, with no change
  of a quote in between.\<close>

fun consecutive_reads :: "quote_store \<Rightarrow> curve \<Rightarrow> Time list \<Rightarrow> error + real list \<times> curve" where
  "consecutive_reads store c [] = Inr ([], c)"
| "consecutive_reads store c (t # ts) =
    (case yoyRateImpl store c t of
       Inl e \<Rightarrow> Inl e
     | Inr (y, c') \<Rightarrow>
        (case consecutive_reads store c' ts of
           Inl e \<Rightarrow> Inl e
         | Inr (ys, c'') \<Rightarrow> Inr (y # ys, c'')))"

text \<open>The invariant of a constructed curve: one quote, one time and one value per date.\<close>

definition well_formed :: "curve \<Rightarrow> bool" where
  "well_formed c \<longleftrightarrow>
     length (curve_quotes c) = length (curve_dates c)
   \<and> length (curve_times c) = length (curve_dates c)
   \<and> length (curve_data c) = length (curve_dates c)"

text \<open>The curve after a recalculation from the given store.\<close>

definition recalculated :: "quote_store \<Rightarrow> curve \<Rightarrow> curve" where
  "recalculated store c =
     c\<lparr>curve_data := map store (curve_quotes c),
       curve_interpolation := (curve_times c, map store (curve_quotes c)),
       dirty := False,
       recalculations := recalculations c + 1\<rparr>"

text \<open>The two conditions that the loop of the constructor checks at the indices from \<open>a\<close>
  up to \<open>n\<close>.\<close>

definition nodes_ok :: "conventions \<Rightarrow> Date list \<Rightarrow> nat \<Rightarrow> nat \<Rightarrow> bool" where
  "nodes_ok cv ds a n \<longleftrightarrow>
     (\<forall>i. a \<le> i \<and> i < n \<longrightarrow>
        ds ! (i - 1) < ds ! i
      \<and> \<not> close cv (timeFromReference cv (ds ! i)) (timeFromReference cv (ds ! (i - 1))))"

text \<open>The dates the constructor keeps, and the curve it returns when every check
  passes.\<close>

definition node_dates :: "conventions \<Rightarrow> Date list \<Rightarrow> Date list" where
  "node_dates cv dates =
     (if indexIsInterpolated cv then dates else map (\<lambda>d. fst (inflationPeriod cv d)) dates)"

definition constructed ::
  "conventions \<Rightarrow> (Time list \<Rightarrow> real list \<Rightarrow> Time \<Rightarrow> real) \<Rightarrow> quote_store
     \<Rightarrow> Date list \<Rightarrow> nat list \<Rightarrow> curve" where
  "constructed cv interp store dates quotes =
     \<lparr>curve_dates = node_dates cv dates, curve_quotes = quotes,
      curve_times = map (timeFromReference cv) (node_dates cv dates),
      curve_data = replicate (length dates) 0,
      curve_interpolation =
        (map (timeFromReference cv) (node_dates cv dates), replicate (length dates) 0),
      interpolator = interp, baseRate = store (hd quotes), dirty = True,
      recalculations = 0, notifications = 0\<rparr>"

text \<open>The checks of the constructor, on a node set with at least one quote.\<close>

definition valid_nodes :: "conventions \<Rightarrow> Date list \<Rightarrow> nat list \<Rightarrow> bool" where
  "valid_nodes cv dates quotes \<longleftrightarrow>
     length dates > 1 \<and> length quotes = length dates
   \<and> nodes_ok cv (node_dates cv dates) 1 (length dates)"

subsection \<open>An example curve\<close>

text \<open>An interpolation scheme for the examples: linear between the nodes, with the first
  and the last segment extended beyond them.\<close>

fun linear :: "Time list \<Rightarrow> real list \<Rightarrow> Time \<Rightarrow> real" where
  "linear (t0 # t1 # ts) (y0 # y1 # ys) t =
     (if t \<le> t1 \<or> ts = [] then y0 + (t - t0) * (y1 - y0) / (t1 - t0)
      else linear (t1 # ts) (y1 # ys) t)"
| "linear ts ys t = 0"

text \<open>Conventions for the examples: inflation periods of thirty days, times in years of
  360 days from day 45000, an index that is not interpolated. Two quotes, at 2% and 3%,
  for two dates in consecutive periods.\<close>

definition example_conventions :: conventions where
  "example_conventions =
     \<lparr>inflationPeriod = (\<lambda>d. (d - d mod 30, d - d mod 30 + 29)),
      timeFromReference = (\<lambda>d. real_of_int (d - 45000) / 360),
      close = (\<lambda>x y. \<bar>x - y\<bar> \<le> 1 / 10 ^ 12),
      indexIsInterpolated = False\<rparr>"

definition example_store :: quote_store where
  "example_store = (\<lambda>q. if q = 0 then 2 / 100 else 3 / 100)"

definition example_curve :: curve where
  "example_curve =
     \<lparr>curve_dates = [45000, 45030], curve_quotes = [0, 1], curve_times = [0, 1 / 12],
      curve_data = [0, 0], curve_interpolation = ([0, 1 / 12], [0, 0]),
      interpolator = linear, baseRate = 2 / 100, dirty = True,
      recalculations = 0, notifications = 0\<rparr>"

section \<open>The SIMM configuration\<close>

text \<open>Modelled from the spec: the definition of \<^verbatim>\<open>SimmConfiguration_ISDA_V2_3_8::group\<close> is
  not part of the sources, which hold its declaration and the member \<^verbatim>\<open>ccyGroups_\<close> only.
  The spec describes it as the reverse lookup of the group index a qualifier belongs to,
  among groups that partition the qualifiers into disjoint sets; a qualifier found in no
  group, or in more than one, is a fatal configuration error. The map from group index to
  set of qualifiers is the list of its entries, whose keys are distinct.\<close>

definition group :: "string \<Rightarrow> (nat \<times> string set) list \<Rightarrow> error + nat" where
  "group qualifier groups =
     (case filter (\<lambda>kv. qualifier \<in> snd kv) groups of
        [] \<Rightarrow> Inl (Fail ''qualifier is in no group'')
      | [kv] \<Rightarrow> Inr (fst kv)
      | _ \<Rightarrow> Inl (Fail ''qualifier is in more than one group''))"

text \<open>The configuration-consistency invariant: the sets of two different entries are
  disjoint.\<close>

definition disjoint_groups :: "(nat \<times> string set) list \<Rightarrow> bool" where
  "disjoint_groups groups \<longleftrightarrow>
     (\<forall>kv \<in> set groups. \<forall>kv' \<in> set groups. kv \<noteq> kv' \<longrightarrow> snd kv \<inter> snd kv' = {})"

text \<open>Currency groups for the examples.\<close>

definition example_groups :: "(nat \<times> string set) list" where
  "example_groups = [(0, set [''USD'', ''EUR'']), (1, set [''BRL'', ''RUB'', ''TRY''])]"

section \<open>Properties of the mid-point CDS engine\<close>

subsection \<open>The loop over the leg\<close>

lemma leg_step_result:
  assumes "leg_step eng a (evaluationDate eng) i (Coupon c) (r, v) = Inr (r', v')"
  shows "r' = r\<lparr>couponLegNPV := couponLegNPV r + coupon_term eng a (i, c),
                 defaultLegNPV := defaultLegNPV r + default_term eng a (i, c)\<rparr>"
  using assms
  by (auto simp: leg_step_def Let_def coupon_term_def default_term_def midpoint_date_def
        effective_start_def period_start_def protection_payment_date_def
      split: payment_time.splits if_splits)

lemma leg_step_simple:
  "leg_step eng a today i (SimpleCashFlow s) rv \<noteq> Inr rv'"
  by (simp add: leg_step_def)

lemma leg_loop_result:
  assumes "leg_loop eng a (evaluationDate eng) (referenceDate eng) i cfs (r, v) = Inr (r', v')"
  shows "r' = r\<lparr>couponLegNPV :=
                   couponLegNPV r + sum_list (map (coupon_term eng a) (live_coupons eng i cfs)),
                 defaultLegNPV :=
                   defaultLegNPV r + sum_list (map (default_term eng a) (live_coupons eng i cfs))\<rparr>"
  using assms
proof (induction cfs arbitrary: i r v)
  case Nil
  then show ?case by simp
next
  case (Cons cf cfs)
  show ?case
  proof (cases "hasOccurred eng (leg_date cf) (referenceDate eng) (includeSettlementDateFlows eng)")
    case True
    with Cons show ?thesis by (cases cf) auto
  next
    case False
    show ?thesis
    proof (cases cf)
      case (SimpleCashFlow s)
      with Cons.prems False show ?thesis by (simp add: leg_step_def)
    next
      case (Coupon c)
      with Cons.prems False obtain r1 v1 where
        st: "leg_step eng a (evaluationDate eng) i (Coupon c) (r, v) = Inr (r1, v1)"
        and lp: "leg_loop eng a (evaluationDate eng) (referenceDate eng) (Suc i) cfs (r1, v1) = Inr (r', v')"
        by (auto split: sum.splits)
      from leg_step_result[OF st] Cons.IH[OF lp] Coupon False show ?thesis
        by (simp add: algebra_simps)
    qed
  qed
qed

subsection \<open>The stages of the calculation\<close>

lemma flows_before_leg_result:
  "flows_before_leg eng a (referenceDate eng) r =
     (upfront_pv01 eng a,
      r\<lparr>upfrontNPV := flow_npv eng (upfrontPayment a),
        accrualRebateNPV := flow_npv eng (accrualRebate a),
        accrualRebateNPVCurrent := flow_npv eng (accrualRebateCurrent a),
        couponLegNPV := 0, defaultLegNPV := 0\<rparr>)"
  by (simp add: flows_before_leg_def flow_npv_def upfront_pv01_def Let_def
      split: option.splits)

lemma accumulate_result:
  assumes "accumulate eng a r = Inr (upfPVO1, r')"
  shows "upfPVO1 = upfront_pv01 eng a"
    and "upfrontNPV r' = flow_npv eng (upfrontPayment a)"
    and "accrualRebateNPV r' = flow_npv eng (accrualRebate a)"
    and "accrualRebateNPVCurrent r' = flow_npv eng (accrualRebateCurrent a)"
    and "couponLegNPV r' = sum_list (map (coupon_term eng a) (live_coupons eng 0 (leg a)))"
    and "defaultLegNPV r' = sum_list (map (default_term eng a) (live_coupons eng 0 (leg a)))"
proof -
  let ?r0 = "r\<lparr>upfrontNPV := flow_npv eng (upfrontPayment a),
        accrualRebateNPV := flow_npv eng (accrualRebate a),
        accrualRebateNPVCurrent := flow_npv eng (accrualRebateCurrent a),
        couponLegNPV := 0, defaultLegNPV := 0\<rparr>"
  from assms obtain r2 v where
    lp: "leg_loop eng a (evaluationDate eng) (referenceDate eng) 0 (leg a)
           (?r0, \<lparr>protectionPaymentDates = [], midpointDiscounts = [],
                     expectedLosses = [], defaultProbabilities = []\<rparr>) = Inr (r2, v)"
    and u: "upfPVO1 = upfront_pv01 eng a"
    and r': "r' = r2\<lparr>additionalResults := (additionalResults r2)
                      (''protectionPaymentDates'' \<mapsto> AnyDates (protectionPaymentDates v),
                       ''midpointDiscounts'' \<mapsto> AnyReals (midpointDiscounts v),
                       ''expectedLosses'' \<mapsto> AnyReals (expectedLosses v),
                       ''defaultProbabilities'' \<mapsto> AnyReals (defaultProbabilities v))\<rparr>"
    by (auto simp: accumulate_def flows_before_leg_result Let_def split: sum.splits)
  note res = leg_loop_result[OF lp]
  show "upfPVO1 = upfront_pv01 eng a" by (rule u)
  show "upfrontNPV r' = flow_npv eng (upfrontPayment a)"
    by (subst r', subst res) simp
  show "accrualRebateNPV r' = flow_npv eng (accrualRebate a)"
    by (subst r', subst res) simp
  show "accrualRebateNPVCurrent r' = flow_npv eng (accrualRebateCurrent a)"
    by (subst r', subst res) simp
  show "couponLegNPV r' = sum_list (map (coupon_term eng a) (live_coupons eng 0 (leg a)))"
    by (subst r', subst res) simp
  show "defaultLegNPV r' = sum_list (map (default_term eng a) (live_coupons eng 0 (leg a)))"
    by (subst r', subst res) simp
qed

lemma calculate_InrE:
  assumes "calculate eng refDate a r = Inr r'"
  obtains upfPVO1 r1 upfrontSign r2 up where
    "accumulate eng a r = Inr (upfPVO1, r1)"
    "sign_convention (side a) r1 = Inr (upfrontSign, r2)"
    "upfrontPayment a = Some up"
    "record_additional a (derived_outputs a upfPVO1 upfrontSign r2) = Inr r'"
  using assms
  by (auto simp: calculate_def record_additional_def split: sum.splits option.splits)

lemma record_additional_fields:
  assumes "record_additional a r = Inr r'"
  shows "results_value r' = results_value r" "errorEstimate r' = errorEstimate r"
    "upfrontNPV r' = upfrontNPV r" "accrualRebateNPV r' = accrualRebateNPV r"
    "accrualRebateNPVCurrent r' = accrualRebateNPVCurrent r"
    "couponLegNPV r' = couponLegNPV r" "defaultLegNPV r' = defaultLegNPV r"
    "fairSpreadDirty r' = fairSpreadDirty r" "fairSpreadClean r' = fairSpreadClean r"
    "fairUpfront r' = fairUpfront r" "couponLegBPS r' = couponLegBPS r"
    "upfrontBPS r' = upfrontBPS r"
  using assms by (auto simp: record_additional_def split: option.splits)

lemma derived_outputs_fields:
  "upfrontNPV (derived_outputs a u s r) = upfrontNPV r"
  "accrualRebateNPV (derived_outputs a u s r) = accrualRebateNPV r"
  "accrualRebateNPVCurrent (derived_outputs a u s r) = accrualRebateNPVCurrent r"
  "couponLegNPV (derived_outputs a u s r) = couponLegNPV r"
  "defaultLegNPV (derived_outputs a u s r) = defaultLegNPV r"
  "additionalResults (derived_outputs a u s r) = additionalResults r"
  "errorEstimate (derived_outputs a u s r) = NullValue"
  "results_value (derived_outputs a u s r) =
     defaultLegNPV r + couponLegNPV r + upfrontNPV r + accrualRebateNPV r"
  by (simp_all add: derived_outputs_def Let_def split: option.splits)

lemma derived_outputs_ratios:
  "fairSpreadDirty (derived_outputs a u s r) =
     (if couponLegNPV r \<noteq> 0
      then fdiv (- defaultLegNPV r * spread a) (couponLegNPV r + accrualRebateNPV r)
      else NullValue)"
  "fairSpreadClean (derived_outputs a u s r) =
     (if couponLegNPV r \<noteq> 0
      then fdiv (- defaultLegNPV r * spread a) (couponLegNPV r + accrualRebateNPVCurrent r)
      else NullValue)"
  "fairUpfront (derived_outputs a u s r) =
     (if u * notional a > 0
      then fdiv (- s * (defaultLegNPV r + couponLegNPV r + accrualRebateNPV r)) (u * notional a)
      else NullValue)"
  "couponLegBPS (derived_outputs a u s r) =
     (if spread a \<noteq> 0 then fdiv (couponLegNPV r * basisPoint) (spread a) else NullValue)"
  "upfrontBPS (derived_outputs a u s r) =
     (case upfront a of
        Some x \<Rightarrow> if x \<noteq> 0 then fdiv (upfrontNPV r * basisPoint) x else NullValue
      | None \<Rightarrow> NullValue)"
  by (simp_all add: derived_outputs_def Let_def split: option.splits)

lemma leg_step_side: "leg_step eng (a\<lparr>side := s\<rparr>) today i cf rv = leg_step eng a today i cf rv"
  by (cases cf; cases "protectionPaymentTime a")
    (simp_all add: leg_step_def expectedLoss_def Let_def split_beta)

lemma leg_loop_side:
  "leg_loop eng (a\<lparr>side := s\<rparr>) today sd i cfs rv = leg_loop eng a today sd i cfs rv"
  by (induction cfs arbitrary: i rv) (simp_all add: leg_step_side cong: sum.case_cong)

lemma accumulate_side: "accumulate eng (a\<lparr>side := s\<rparr>) r = accumulate eng a r"
  by (simp add: accumulate_def flows_before_leg_def leg_loop_side)

lemma sign_convention_Seller:
  "sign_convention Seller r = Inr (1, r\<lparr>defaultLegNPV := - defaultLegNPV r,
       accrualRebateNPV := - accrualRebateNPV r,
       accrualRebateNPVCurrent := - accrualRebateNPVCurrent r\<rparr>)"
  by (simp add: sign_convention_def)

lemma sign_convention_Buyer:
  "sign_convention Buyer r = Inr (- 1, r\<lparr>couponLegNPV := - couponLegNPV r,
       upfrontNPV := - upfrontNPV r\<rparr>)"
  by (simp add: sign_convention_def)

lemma sign_convention_InrE:
  assumes "sign_convention s r = Inr (sg, r')"
  obtains "s = Seller" "sg = 1" "r' = r\<lparr>defaultLegNPV := - defaultLegNPV r,
       accrualRebateNPV := - accrualRebateNPV r,
       accrualRebateNPVCurrent := - accrualRebateNPVCurrent r\<rparr>"
  | "s = Buyer" "sg = - 1" "r' = r\<lparr>couponLegNPV := - couponLegNPV r,
       upfrontNPV := - upfrontNPV r\<rparr>"
  using assms by (cases s) (auto simp: sign_convention_def)

lemma calculate_npvs:
  assumes "calculate eng refDate a r = Inr r'"
  shows "side a = Buyer \<or> side a = Seller"
    and "defaultLegNPV r' = (if side a = Seller then - 1 else 1)
           * sum_list (map (default_term eng a) (live_coupons eng 0 (leg a)))"
    and "couponLegNPV r' = (if side a = Buyer then - 1 else 1)
           * sum_list (map (coupon_term eng a) (live_coupons eng 0 (leg a)))"
    and "upfrontNPV r' = (if side a = Buyer then - 1 else 1) * flow_npv eng (upfrontPayment a)"
    and "accrualRebateNPV r' = (if side a = Seller then - 1 else 1) * flow_npv eng (accrualRebate a)"
    and "accrualRebateNPVCurrent r' =
           (if side a = Seller then - 1 else 1) * flow_npv eng (accrualRebateCurrent a)"
proof -
  from assms obtain upfPVO1 r1 upfrontSign r2 up where
    acc: "accumulate eng a r = Inr (upfPVO1, r1)"
    and sg: "sign_convention (side a) r1 = Inr (upfrontSign, r2)"
    and ra: "record_additional a (derived_outputs a upfPVO1 upfrontSign r2) = Inr r'"
    by (rule calculate_InrE)
  note f = record_additional_fields[OF ra] derived_outputs_fields accumulate_result[OF acc]
  from sg show "side a = Buyer \<or> side a = Seller"
    by (rule sign_convention_InrE) simp_all
  from sg show "defaultLegNPV r' = (if side a = Seller then - 1 else 1)
           * sum_list (map (default_term eng a) (live_coupons eng 0 (leg a)))"
    by (rule sign_convention_InrE) (simp_all add: f)
  from sg show "couponLegNPV r' = (if side a = Buyer then - 1 else 1)
           * sum_list (map (coupon_term eng a) (live_coupons eng 0 (leg a)))"
    by (rule sign_convention_InrE) (simp_all add: f)
  from sg show "upfrontNPV r' = (if side a = Buyer then - 1 else 1) * flow_npv eng (upfrontPayment a)"
    by (rule sign_convention_InrE) (simp_all add: f)
  from sg show "accrualRebateNPV r' = (if side a = Seller then - 1 else 1) * flow_npv eng (accrualRebate a)"
    by (rule sign_convention_InrE) (simp_all add: f)
  from sg show "accrualRebateNPVCurrent r' =
           (if side a = Seller then - 1 else 1) * flow_npv eng (accrualRebateCurrent a)"
    by (rule sign_convention_InrE) (simp_all add: f)
qed

lemma calculate_derived:
  assumes "calculate eng refDate a r = Inr r'"
  shows "results_value r' = defaultLegNPV r' + couponLegNPV r' + upfrontNPV r' + accrualRebateNPV r'"
    and "errorEstimate r' = NullValue"
    and "fairSpreadDirty r' =
     (if couponLegNPV r' \<noteq> 0
      then fdiv (- defaultLegNPV r' * spread a) (couponLegNPV r' + accrualRebateNPV r')
      else NullValue)"
    and "fairSpreadClean r' =
     (if couponLegNPV r' \<noteq> 0
      then fdiv (- defaultLegNPV r' * spread a) (couponLegNPV r' + accrualRebateNPVCurrent r')
      else NullValue)"
    and "fairUpfront r' =
     (if upfront_pv01 eng a * notional a > 0
      then fdiv (- (if side a = Buyer then - 1 else 1)
                  * (defaultLegNPV r' + couponLegNPV r' + accrualRebateNPV r'))
                (upfront_pv01 eng a * notional a)
      else NullValue)"
    and "couponLegBPS r' =
     (if spread a \<noteq> 0 then fdiv (couponLegNPV r' * basisPoint) (spread a) else NullValue)"
    and "upfrontBPS r' =
     (case upfront a of
        Some x \<Rightarrow> if x \<noteq> 0 then fdiv (upfrontNPV r' * basisPoint) x else NullValue
      | None \<Rightarrow> NullValue)"
proof -
  from assms obtain upfPVO1 r1 upfrontSign r2 up where
    acc: "accumulate eng a r = Inr (upfPVO1, r1)"
    and sg: "sign_convention (side a) r1 = Inr (upfrontSign, r2)"
    and ra: "record_additional a (derived_outputs a upfPVO1 upfrontSign r2) = Inr r'"
    by (rule calculate_InrE)
  have u: "upfPVO1 = upfront_pv01 eng a" by (rule accumulate_result(1)[OF acc])
  have s: "upfrontSign = (if side a = Buyer then - 1 else 1)"
    using sg by (rule sign_convention_InrE) simp_all
  note f = record_additional_fields[OF ra] derived_outputs_fields
  show "results_value r' = defaultLegNPV r' + couponLegNPV r' + upfrontNPV r' + accrualRebateNPV r'"
    by (simp add: f)
  show "errorEstimate r' = NullValue" by (simp add: f)
  show "fairSpreadDirty r' =
     (if couponLegNPV r' \<noteq> 0
      then fdiv (- defaultLegNPV r' * spread a) (couponLegNPV r' + accrualRebateNPV r')
      else NullValue)"
    by (simp add: f derived_outputs_ratios)
  show "fairSpreadClean r' =
     (if couponLegNPV r' \<noteq> 0
      then fdiv (- defaultLegNPV r' * spread a) (couponLegNPV r' + accrualRebateNPVCurrent r')
      else NullValue)"
    by (simp add: f derived_outputs_ratios)
  show "fairUpfront r' =
     (if upfront_pv01 eng a * notional a > 0
      then fdiv (- (if side a = Buyer then - 1 else 1)
                  * (defaultLegNPV r' + couponLegNPV r' + accrualRebateNPV r'))
                (upfront_pv01 eng a * notional a)
      else NullValue)"
    unfolding f derived_outputs_ratios u s by simp
  show "couponLegBPS r' =
     (if spread a \<noteq> 0 then fdiv (couponLegNPV r' * basisPoint) (spread a) else NullValue)"
    by (simp add: f derived_outputs_ratios)
  show "upfrontBPS r' =
     (case upfront a of
        Some x \<Rightarrow> if x \<noteq> 0 then fdiv (upfrontNPV r' * basisPoint) x else NullValue
      | None \<Rightarrow> NullValue)"
    by (simp add: f derived_outputs_ratios split: option.splits)
qed

subsection \<open>When the calculation returns\<close>

lemma leg_step_succeeds_iff:
  "(\<exists>rv'. leg_step eng a today i cf rv = Inr rv') \<longleftrightarrow>
     (\<exists>c. cf = Coupon c) \<and> protectionPaymentTime a \<noteq> UnknownPaymentTime"
  by (cases cf; cases "protectionPaymentTime a"; cases rv)
    (simp_all add: leg_step_def Let_def)

lemma leg_loop_succeeds_iff:
  "(\<exists>rv'. leg_loop eng a today sd i cfs rv = Inr rv') \<longleftrightarrow>
     (\<forall>cf \<in> set cfs.
        \<not> hasOccurred eng (leg_date cf) sd (includeSettlementDateFlows eng)
        \<longrightarrow> (\<exists>c. cf = Coupon c) \<and> protectionPaymentTime a \<noteq> UnknownPaymentTime)"
proof (induction cfs arbitrary: i rv)
  case Nil
  show ?case by simp
next
  case (Cons cf cfs)
  show ?case
  proof (cases "hasOccurred eng (leg_date cf) sd (includeSettlementDateFlows eng)")
    case True
    then show ?thesis using Cons.IH[of "Suc i" rv] by simp
  next
    case False
    show ?thesis
    proof (cases "leg_step eng a today i cf rv")
      case (Inl e)
      with leg_step_succeeds_iff[of eng a today i cf rv] False show ?thesis by auto
    next
      case (Inr rv1)
      with leg_step_succeeds_iff[of eng a today i cf rv]
      have "(\<exists>c. cf = Coupon c) \<and> protectionPaymentTime a \<noteq> UnknownPaymentTime" by blast
      with Inr False Cons.IH[of "Suc i" rv1] show ?thesis by simp
    qed
  qed
qed

lemma accumulate_succeeds_iff:
  "(\<exists>x. accumulate eng a r = Inr x) \<longleftrightarrow> leg_ok eng a"
proof -
  obtain u r0 where f: "flows_before_leg eng a (referenceDate eng) r = (u, r0)"
    by (cases "flows_before_leg eng a (referenceDate eng) r")
  let ?v0 = "\<lparr>protectionPaymentDates = [], midpointDiscounts = [],
                     expectedLosses = [], defaultProbabilities = []\<rparr>"
  have "(\<exists>x. accumulate eng a r = Inr x) \<longleftrightarrow>
        (\<exists>rv'. leg_loop eng a (evaluationDate eng) (referenceDate eng) 0 (leg a) (r0, ?v0) = Inr rv')"
    by (cases "leg_loop eng a (evaluationDate eng) (referenceDate eng) 0 (leg a) (r0, ?v0)")
      (auto simp: accumulate_def f Let_def)
  also have "\<dots> \<longleftrightarrow> leg_ok eng a"
    unfolding leg_ok_def by (rule leg_loop_succeeds_iff)
  finally show ?thesis .
qed

lemma calculate_succeeds_iff:
  "(\<exists>r'. calculate eng refDate a r = Inr r') \<longleftrightarrow>
     leg_ok eng a \<and> side a \<noteq> UnknownSide \<and> upfrontPayment a \<noteq> None"
proof (cases "accumulate eng a r")
  case (Inl e)
  with accumulate_succeeds_iff[of eng a r] show ?thesis by (auto simp: calculate_def)
next
  case (Inr x)
  with accumulate_succeeds_iff[of eng a r] have ok: "leg_ok eng a" by blast
  obtain u r1 where x: "x = (u, r1)" by (cases x)
  show ?thesis using Inr ok x
    by (cases "side a"; cases "upfrontPayment a")
      (auto simp: calculate_def sign_convention_def record_additional_def)
qed

subsection \<open>The example instrument\<close>

lemma example_leg_ok: "leg_ok example_engine example_arguments"
  by (simp add: leg_ok_def example_engine_def example_arguments_def example_coupon_def)

lemma example_live:
  "live_coupons example_engine 0 (leg example_arguments) = [(0, example_coupon)]"
  by (simp add: example_engine_def example_arguments_def example_coupon_def)

subsection \<open>The terms of the default leg and of the coupon leg\<close>

text \<open>
  Claim C1. When \<^verbatim>\<open>calculate\<close> returns, the default-leg NPV before the sign convention is
  the sum, over the coupons of the leg that have not occurred at the settlement date, of
  \<^verbatim>\<open>expectedLoss(defaultDate, effectiveStartDate, endDate, nominal)\<close> times the discount
  factor at the protection payment date, where the default date is the mid-point
  \<^verbatim>\<open>effectiveStartDate + (endDate - effectiveStartDate) / 2\<close> and the expected loss is the claim
  amount times the default probability over the period, the claim amount of a standard
  claim being the notional times one minus the recovery rate. The coupon-leg NPV before the
  sign convention is the sum of survival probability times coupon amount times the
  discount factor at the payment date, to which the accrual on default is added per
  coupon when accrual is settled. The witness is the scenario of the specification:
  default leg 11,940 and, for the buyer, coupon leg \<open>- 0.98 \<times> 2,500 \<times> 0.99\<close>.
\<close>

theorem calculate_leg_terms:
  assumes "calculate eng refDate a r = Inr r'"
  shows "(if side a = Seller then - defaultLegNPV r' else defaultLegNPV r') =
           (\<Sum>(i, c) \<leftarrow> live_coupons eng 0 (leg a).
              expectedLoss eng a (midpoint_date eng a i c) (effective_start eng a i c)
                (accrualEndDate c) (nominal c)
              * discount eng (protection_payment_date eng a i c))
       \<and> (if side a = Buyer then - couponLegNPV r' else couponLegNPV r') =
           (\<Sum>(i, c) \<leftarrow> live_coupons eng 0 (leg a).
              survivalProbability eng (date c) * amount c * discount eng (date c)
              + (if settlesAccrual a
                 then defaultProbability eng (effective_start eng a i c) (accrualEndDate c)
                        * accruedAmount c (midpoint_date eng a i c)
                        * discount eng (protection_payment_date eng a i c)
                 else 0))
       \<and> (\<forall>i c. midpoint_date eng a i c =
              effective_start eng a i c
              + tdiv (accrualEndDate c - effective_start eng a i c) 2)
       \<and> (\<forall>d d1 d2 n. expectedLoss eng a d d1 d2 n =
              claim a d n (recoveryRate eng) * defaultProbability eng d1 d2)
       \<and> (claim a = faceValueClaim \<longrightarrow>
            (\<forall>d d1 d2 n. expectedLoss eng a d d1 d2 n =
               n * (1 - recoveryRate eng) * defaultProbability eng d1 d2))"
proof -
  have dt: "default_term eng a = (\<lambda>(i, c).
              expectedLoss eng a (midpoint_date eng a i c) (effective_start eng a i c)
                (accrualEndDate c) (nominal c)
              * discount eng (protection_payment_date eng a i c))"
    by (rule ext) (simp add: default_term_def)
  have ct: "coupon_term eng a = (\<lambda>(i, c).
              survivalProbability eng (date c) * amount c * discount eng (date c)
              + (if settlesAccrual a
                 then defaultProbability eng (effective_start eng a i c) (accrualEndDate c)
                        * accruedAmount c (midpoint_date eng a i c)
                        * discount eng (protection_payment_date eng a i c)
                 else 0))"
    by (rule ext) (simp add: coupon_term_def)
  have d: "(if side a = Seller then - defaultLegNPV r' else defaultLegNPV r') =
        sum_list (map (default_term eng a) (live_coupons eng 0 (leg a)))"
    by (simp add: calculate_npvs(2)[OF assms])
  have c: "(if side a = Buyer then - couponLegNPV r' else couponLegNPV r') =
        sum_list (map (coupon_term eng a) (live_coupons eng 0 (leg a)))"
    by (simp add: calculate_npvs(3)[OF assms])
  show ?thesis
    unfolding d c dt ct by (simp add: midpoint_date_def expectedLoss_def faceValueClaim_def)
qed

theorem calculate_leg_terms_witness:
  "map_sum id (\<lambda>r. (defaultLegNPV r, couponLegNPV r))
     (calculate example_engine 45000 example_arguments blank_results)
     = Inr (11940, - (98 / 100 * 2500 * (99 / 100)))"
proof -
  have "\<exists>r'. calculate example_engine 45000 example_arguments blank_results = Inr r'"
    unfolding calculate_succeeds_iff using example_leg_ok
    by (simp add: example_arguments_def)
  then obtain r' where
    ok: "calculate example_engine 45000 example_arguments blank_results = Inr r'" ..
  have s: "side example_arguments = Buyer" "settlesAccrual example_arguments = False"
    "claim example_arguments = faceValueClaim" "protectionPaymentTime example_arguments = atDefault"
    "protectionStart example_arguments = 45000"
    by (simp_all add: example_arguments_def)
  have e: "evaluationDate example_engine = 45000" "recoveryRate example_engine = 4 / 10"
    "defaultProbability example_engine = (\<lambda>d1 d2. 2 / 100)"
    "survivalProbability example_engine = (\<lambda>d. 98 / 100)"
    "discount example_engine = (\<lambda>d. if d = 45045 then 995 / 1000 else 99 / 100)"
    by (simp_all add: example_engine_def)
  have c: "date example_coupon = 45090" "amount example_coupon = 2500"
    "accrualEndDate example_coupon = 45090" "nominal example_coupon = 1000000"
    by (simp_all add: example_coupon_def)
  have m: "midpoint_date example_engine example_arguments 0 example_coupon = 45045"
    by (simp add: midpoint_date_def effective_start_def period_start_def s e c tdiv_def)
  have p: "protection_payment_date example_engine example_arguments 0 example_coupon = 45045"
    by (simp add: protection_payment_date_def s m)
  from calculate_leg_terms[OF ok] have
    "defaultLegNPV r' = 11940" "couponLegNPV r' = - (98 / 100 * 2500 * (99 / 100))"
    by (simp_all add: example_live s e c m p expectedLoss_def faceValueClaim_def)
  with ok show ?thesis by simp
qed

subsection \<open>Arguments that differ in one field\<close>

lemma leg_ok_side: "leg_ok eng (a\<lparr>side := s\<rparr>) = leg_ok eng a"
  by (simp add: leg_ok_def)

lemma leg_ok_rebate_current: "leg_ok eng (a\<lparr>accrualRebateCurrent := x\<rparr>) = leg_ok eng a"
  by (simp add: leg_ok_def)

lemma terms_cong:
  assumes "protectionStart a' = protectionStart a"
    and "protectionPaymentTime a' = protectionPaymentTime a"
    and "maturity a' = maturity a"
    and "settlesAccrual a' = settlesAccrual a"
    and "claim a' = claim a"
  shows "default_term eng a' = default_term eng a"
    and "coupon_term eng a' = coupon_term eng a"
proof -
  have p: "period_start a' = period_start a"
    by (intro ext) (simp add: period_start_def assms)
  have e: "effective_start eng a' = effective_start eng a"
    by (intro ext) (simp add: effective_start_def p)
  have m: "midpoint_date eng a' = midpoint_date eng a"
    by (intro ext) (simp add: midpoint_date_def e)
  have q: "protection_payment_date eng a' = protection_payment_date eng a"
    by (intro ext) (simp add: protection_payment_date_def m assms split: payment_time.splits)
  show "default_term eng a' = default_term eng a"
    by (intro ext) (simp add: default_term_def expectedLoss_def e m q assms)
  show "coupon_term eng a' = coupon_term eng a"
    by (intro ext) (simp add: coupon_term_def e m q assms cong: if_cong)
qed

lemmas terms_side = terms_cong[of "a\<lparr>side := s\<rparr>" a, simplified] for a s

lemmas terms_rebate_current =
  terms_cong[of "a\<lparr>accrualRebateCurrent := x\<rparr>" a, simplified] for a x

lemma upfront_pv01_rebate_current:
  "upfront_pv01 eng (a\<lparr>accrualRebateCurrent := x\<rparr>) = upfront_pv01 eng a"
  by (simp add: upfront_pv01_def)

lemma record_additional_entries:
  assumes "record_additional a r = Inr r'"
  shows "\<exists>up. upfrontPayment a = Some up
           \<and> additionalResults r' ''upfrontPremium'' = Some (AnyReal (amount up))"
    and "additionalResults r' ''accrualRebateNPVCurrent'' = Some (AnyReal (accrualRebateNPVCurrent r))"
    and "additionalResults r' ''premiumLegNPVClean''
           = Some (AnyReal (couponLegNPV r + accrualRebateNPVCurrent r))"
  using assms by (auto simp: record_additional_def split: option.splits)

subsection \<open>The sign convention\<close>

text \<open>
  Claim C2. For fixed arguments, when \<^verbatim>\<open>calculate\<close> returns for the protection buyer it
  returns for the protection seller too, and the default-leg NPVs and the coupon-leg NPVs
  of the two runs have opposite sign and equal magnitude. Both runs negate the values
  accumulated before the sign convention (which do not depend on the side) exactly once:
  the seller's default-leg NPV and both accrual-rebate NPVs, the buyer's coupon-leg NPV and
  upfront NPV; every other NPV is the accumulated value.
\<close>

theorem buyer_seller_sign_symmetry:
  assumes "calculate eng refDate (a\<lparr>side := Buyer\<rparr>) r = Inr rb"
  shows "\<exists>rs upfPVO1 raw.
           calculate eng refDate (a\<lparr>side := Seller\<rparr>) r = Inr rs
         \<and> defaultLegNPV rs = - defaultLegNPV rb \<and> couponLegNPV rs = - couponLegNPV rb
         \<and> \<bar>defaultLegNPV rs\<bar> = \<bar>defaultLegNPV rb\<bar> \<and> \<bar>couponLegNPV rs\<bar> = \<bar>couponLegNPV rb\<bar>
         \<and> accumulate eng a r = Inr (upfPVO1, raw)
         \<and> defaultLegNPV rs = - defaultLegNPV raw
         \<and> accrualRebateNPV rs = - accrualRebateNPV raw
         \<and> accrualRebateNPVCurrent rs = - accrualRebateNPVCurrent raw
         \<and> couponLegNPV rs = couponLegNPV raw
         \<and> upfrontNPV rs = upfrontNPV raw
         \<and> couponLegNPV rb = - couponLegNPV raw
         \<and> upfrontNPV rb = - upfrontNPV raw
         \<and> defaultLegNPV rb = defaultLegNPV raw
         \<and> accrualRebateNPV rb = accrualRebateNPV raw
         \<and> accrualRebateNPVCurrent rb = accrualRebateNPVCurrent raw"
proof -
  from assms have "\<exists>r'. calculate eng refDate (a\<lparr>side := Buyer\<rparr>) r = Inr r'" by blast
  then have ok: "leg_ok eng a" and up: "upfrontPayment a \<noteq> None"
    unfolding calculate_succeeds_iff by (simp_all add: leg_ok_side)
  then have "\<exists>r'. calculate eng refDate (a\<lparr>side := Seller\<rparr>) r = Inr r'"
    unfolding calculate_succeeds_iff by (simp add: leg_ok_side)
  then obtain rs where rs: "calculate eng refDate (a\<lparr>side := Seller\<rparr>) r = Inr rs" ..
  from ok obtain upfPVO1 raw where raw: "accumulate eng a r = Inr (upfPVO1, raw)"
    using accumulate_succeeds_iff[of eng a r] by auto
  note fr = accumulate_result[OF raw]
  note fb = calculate_npvs[OF assms]
  note fs = calculate_npvs[OF rs]
  have "defaultLegNPV rs = - defaultLegNPV raw" "accrualRebateNPV rs = - accrualRebateNPV raw"
    "accrualRebateNPVCurrent rs = - accrualRebateNPVCurrent raw"
    "couponLegNPV rs = couponLegNPV raw" "upfrontNPV rs = upfrontNPV raw"
    "couponLegNPV rb = - couponLegNPV raw" "upfrontNPV rb = - upfrontNPV raw"
    "defaultLegNPV rb = defaultLegNPV raw" "accrualRebateNPV rb = accrualRebateNPV raw"
    "accrualRebateNPVCurrent rb = accrualRebateNPVCurrent raw"
    by (simp_all add: fr fb fs terms_side)
  with rs raw show ?thesis by simp
qed

lemma example_succeeds:
  "\<exists>r'. calculate example_engine 45000 example_arguments blank_results = Inr r'"
  unfolding calculate_succeeds_iff using example_leg_ok
  by (simp add: example_arguments_def)

lemma example_side: "side example_arguments = Buyer"
  by (simp add: example_arguments_def)

lemma example_terms:
  "default_term example_engine example_arguments (0, example_coupon) = 11940"
  "coupon_term example_engine example_arguments (0, example_coupon) = 98 / 100 * 2500 * (99 / 100)"
  by (simp_all add: default_term_def coupon_term_def expectedLoss_def faceValueClaim_def
      midpoint_date_def effective_start_def period_start_def protection_payment_date_def tdiv_def
      example_engine_def example_arguments_def example_coupon_def)

theorem buyer_seller_sign_symmetry_witness:
  "map_sum id (\<lambda>r. (defaultLegNPV r, couponLegNPV r))
     (calculate example_engine 45000 (example_arguments\<lparr>side := Buyer\<rparr>) blank_results)
     = Inr (11940, - (98 / 100 * 2500 * (99 / 100)))
   \<and> map_sum id (\<lambda>r. (defaultLegNPV r, couponLegNPV r))
     (calculate example_engine 45000 (example_arguments\<lparr>side := Seller\<rparr>) blank_results)
     = Inr (- 11940, 98 / 100 * 2500 * (99 / 100))"
proof -
  have b: "example_arguments\<lparr>side := Buyer\<rparr> = example_arguments"
    by (simp add: example_arguments_def)
  from example_succeeds obtain rb where
    rb: "calculate example_engine 45000 (example_arguments\<lparr>side := Buyer\<rparr>) blank_results = Inr rb"
    unfolding b ..
  from buyer_seller_sign_symmetry[OF rb] obtain rs where
    rs: "calculate example_engine 45000 (example_arguments\<lparr>side := Seller\<rparr>) blank_results = Inr rs"
    and d: "defaultLegNPV rs = - defaultLegNPV rb" and c: "couponLegNPV rs = - couponLegNPV rb"
    by blast
  have "defaultLegNPV rb = 11940" "couponLegNPV rb = - (98 / 100 * 2500 * (99 / 100))"
    using calculate_npvs(2,3)[OF rb] unfolding b
    by (simp_all add: example_live example_terms example_side)
  with rb rs d c show ?thesis by simp
qed

subsection \<open>The guards of the ratios\<close>

lemma rebate_leg_ok: "leg_ok flat_engine rebate_arguments"
  by (simp add: leg_ok_def flat_engine_def rebate_arguments_def example_arguments_def
      example_coupon_def)

text \<open>
  Claim C4. The claim is that the fair spreads are the undefined sentinel whenever the
  denominator of their ratio, the coupon-leg NPV plus the respective accrual-rebate NPV, is
  zero. The guard of the code tests the coupon-leg NPV alone. For the protection buyer of
  the example instrument, with a coupon of 2,500, accrual rebates of 2,500 and discount
  factors and survival probabilities equal to one, the coupon-leg NPV is -2,500 and both
  accrual-rebate NPVs are 2,500: both denominators are zero, the guard lets the division
  through, and both fair spreads are the result of a division by zero.
\<close>

theorem fair_spread_unguarded_denominator:
  "map_sum id (\<lambda>r. (couponLegNPV r, accrualRebateNPV r, accrualRebateNPVCurrent r,
                     fairSpreadDirty r, fairSpreadClean r))
     (calculate flat_engine 45000 rebate_arguments blank_results)
     = Inr (- 2500, 2500, 2500, InfOrNaN, InfOrNaN)"
proof -
  have "\<exists>r'. calculate flat_engine 45000 rebate_arguments blank_results = Inr r'"
    unfolding calculate_succeeds_iff using rebate_leg_ok
    by (simp add: rebate_arguments_def example_arguments_def)
  then obtain r' where r': "calculate flat_engine 45000 rebate_arguments blank_results = Inr r'" ..
  have live: "live_coupons flat_engine 0 (leg rebate_arguments) = [(0, example_coupon)]"
    by (simp add: flat_engine_def rebate_arguments_def example_arguments_def example_coupon_def)
  have ct: "coupon_term flat_engine rebate_arguments (0, example_coupon) = 2500"
    by (simp add: coupon_term_def flat_engine_def rebate_arguments_def example_arguments_def
        example_coupon_def)
  have s: "side rebate_arguments = Buyer"
    by (simp add: rebate_arguments_def example_arguments_def)
  have fl: "flow_npv flat_engine (accrualRebate rebate_arguments) = 2500"
    "flow_npv flat_engine (accrualRebateCurrent rebate_arguments) = 2500"
    by (simp_all add: flow_npv_def flat_engine_def rebate_arguments_def)
  have c: "couponLegNPV r' = - 2500"
    using calculate_npvs(3)[OF r'] by (simp add: live ct s)
  have a: "accrualRebateNPV r' = 2500" "accrualRebateNPVCurrent r' = 2500"
    using calculate_npvs(5,6)[OF r'] by (simp_all add: s fl)
  have "fairSpreadDirty r' = InfOrNaN" "fairSpreadClean r' = InfOrNaN"
    using calculate_derived(3,4)[OF r'] by (simp_all add: c a fdiv_def)
  with r' c a show ?thesis by simp
qed

text \<open>
  Claim C6. When \<^verbatim>\<open>calculate\<close> returns, \<^verbatim>\<open>couponLegBPS\<close> is the undefined sentinel if the
  spread is zero, and the coupon-leg NPV times one basis point (1.0e-4) divided by the
  spread otherwise; \<^verbatim>\<open>upfrontBPS\<close> is the sentinel if the upfront is absent or zero, and the
  upfront NPV times one basis point divided by the upfront otherwise. With a zero spread,
  or an absent or zero upfront, the output is the sentinel and not the result of a
  division by zero. The quotients are those of the reals: nothing is said about an overflow
  of the guarded quotient of two doubles.
\<close>

theorem bps_guards:
  assumes "calculate eng refDate a r = Inr r'"
  shows "couponLegBPS r' =
           (if spread a = 0 then NullValue
            else Number (couponLegNPV r' * (1 / 10000) / spread a))
       \<and> upfrontBPS r' =
           (case upfront a of
              None \<Rightarrow> NullValue
            | Some u \<Rightarrow> if u = 0 then NullValue else Number (upfrontNPV r' * (1 / 10000) / u))
       \<and> (spread a = 0 \<longrightarrow> couponLegBPS r' \<noteq> InfOrNaN)
       \<and> (upfront a = None \<or> upfront a = Some 0 \<longrightarrow> upfrontBPS r' \<noteq> InfOrNaN)"
  using calculate_derived(6,7)[OF assms]
  by (simp add: fdiv_def basisPoint_def split: option.splits)

theorem bps_guards_witness:
  "map_sum id (\<lambda>r. (couponLegBPS r, upfrontBPS r))
     (calculate example_engine 45000 (example_arguments\<lparr>spread := 0, upfront := Some 0\<rparr>)
        blank_results) = Inr (NullValue, NullValue)
   \<and> map_sum id (\<lambda>r. (couponLegBPS r, upfrontBPS r))
     (calculate example_engine 45000 example_arguments blank_results)
       = Inr (Number (- (98 / 100 * 2500 * (99 / 100)) * (1 / 10000) / (1 / 100)), NullValue)"
proof -
  let ?a = "example_arguments\<lparr>spread := 0, upfront := Some 0\<rparr>"
  have "leg_ok example_engine ?a"
    using example_leg_ok by (simp add: leg_ok_def)
  then have "\<exists>r'. calculate example_engine 45000 ?a blank_results = Inr r'"
    unfolding calculate_succeeds_iff by (simp add: example_arguments_def)
  then obtain r0 where r0: "calculate example_engine 45000 ?a blank_results = Inr r0" ..
  from example_succeeds obtain r1 where
    r1: "calculate example_engine 45000 example_arguments blank_results = Inr r1" ..
  have c1: "couponLegNPV r1 = - (98 / 100 * 2500 * (99 / 100))"
    using calculate_npvs(3)[OF r1]
    by (simp add: example_live example_terms example_side)
  have "couponLegBPS r0 = NullValue" "upfrontBPS r0 = NullValue"
    using bps_guards[OF r0] by simp_all
  moreover have "couponLegBPS r1 = Number (- (98 / 100 * 2500 * (99 / 100)) * (1 / 10000) / (1 / 100))"
    "upfrontBPS r1 = NullValue"
    using bps_guards[OF r1] c1 by (simp_all add: example_arguments_def)
  ultimately show ?thesis using r0 r1 by simp
qed

subsection \<open>The upfront payment\<close>

text \<open>
  Claim C9. \<^verbatim>\<open>calculate\<close> reads the amount of \<^verbatim>\<open>arguments.upfrontPayment\<close> when it records
  the additional result \<^verbatim>\<open>upfrontPremium\<close>, without a test: when it returns, the upfront
  payment is present and its amount is the recorded value. With a null upfront payment
  the accumulation of the upfront NPV is guarded and gives zero, but \<^verbatim>\<open>calculate\<close> never
  returns: when nothing fails before, it ends in the dereference of the null pointer.
\<close>

theorem upfront_payment_dereferenced:
  "(calculate eng refDate a r = Inr r' \<longrightarrow>
      (\<exists>up. upfrontPayment a = Some up
         \<and> additionalResults r' ''upfrontPremium'' = Some (AnyReal (amount up))))
   \<and> (upfrontPayment a = None \<longrightarrow>
         fst (flows_before_leg eng a (referenceDate eng) r) = 0
       \<and> upfrontNPV (snd (flows_before_leg eng a (referenceDate eng) r)) = 0
       \<and> (\<forall>x. calculate eng refDate a r \<noteq> Inr x)
       \<and> (leg_ok eng a \<and> side a \<noteq> UnknownSide \<longrightarrow>
            calculate eng refDate a r = Inl (Undefined ''arguments.upfrontPayment is null'')))"
proof (intro conjI impI)
  assume c: "calculate eng refDate a r = Inr r'"
  then obtain upfPVO1 upfrontSign r2 where
    "record_additional a (derived_outputs a upfPVO1 upfrontSign r2) = Inr r'"
    by (rule calculate_InrE)
  then show "\<exists>up. upfrontPayment a = Some up
         \<and> additionalResults r' ''upfrontPremium'' = Some (AnyReal (amount up))"
    by (rule record_additional_entries(1))
next
  assume n: "upfrontPayment a = None"
  show "fst (flows_before_leg eng a (referenceDate eng) r) = 0"
    by (simp add: flows_before_leg_result upfront_pv01_def n)
  show "upfrontNPV (snd (flows_before_leg eng a (referenceDate eng) r)) = 0"
    by (simp add: flows_before_leg_result flow_npv_def n)
  show "\<forall>x. calculate eng refDate a r \<noteq> Inr x"
    using calculate_succeeds_iff[of eng refDate a r] n by simp
next
  assume n: "upfrontPayment a = None" and ok: "leg_ok eng a \<and> side a \<noteq> UnknownSide"
  from ok obtain upfPVO1 r1 where acc: "accumulate eng a r = Inr (upfPVO1, r1)"
    using accumulate_succeeds_iff[of eng a r] by auto
  from ok show "calculate eng refDate a r = Inl (Undefined ''arguments.upfrontPayment is null'')"
    by (cases "side a") (simp_all add: calculate_def acc sign_convention_def record_additional_def n)
qed

theorem upfront_payment_dereferenced_witness:
  "map_sum id (\<lambda>r. additionalResults r ''upfrontPremium'')
     (calculate example_engine 45000 example_arguments blank_results) = Inr (Some (AnyReal 0))
   \<and> calculate example_engine 45000 (example_arguments\<lparr>upfrontPayment := None\<rparr>) blank_results
       = Inl (Undefined ''arguments.upfrontPayment is null'')"
proof -
  from example_succeeds obtain r1 where
    r1: "calculate example_engine 45000 example_arguments blank_results = Inr r1" ..
  have u: "upfrontPayment example_arguments = Some \<lparr>date = 45003, amount = 0\<rparr>"
    by (simp add: example_arguments_def)
  let ?a = "example_arguments\<lparr>upfrontPayment := None\<rparr>"
  have ok: "leg_ok example_engine ?a \<and> side ?a \<noteq> UnknownSide"
    using example_leg_ok by (simp add: leg_ok_def example_side)
  have "additionalResults r1 ''upfrontPremium'' = Some (AnyReal 0)"
    using upfront_payment_dereferenced[of example_engine 45000 example_arguments blank_results r1]
      r1 u by auto
  moreover have "calculate example_engine 45000 ?a blank_results
       = Inl (Undefined ''arguments.upfrontPayment is null'')"
    using upfront_payment_dereferenced[of example_engine 45000 ?a blank_results] ok by simp
  ultimately show ?thesis using r1 by simp
qed

subsection \<open>The scalar value\<close>

text \<open>
  Claim C10. When \<^verbatim>\<open>calculate\<close> returns, \<^verbatim>\<open>results.value\<close> is the sum of the default-leg,
  coupon-leg, upfront and accrual-rebate NPVs, all after the sign convention. The NPV of
  the current accrual rebate is not part of it: replacing \<^verbatim>\<open>accrualRebateCurrent\<close> by any
  other cash flow, or by none, changes neither the value nor any output other than
  \<^verbatim>\<open>accrualRebateNPVCurrent\<close>, the clean fair spread, whose denominator it enters, and the
  additional results.
\<close>

theorem value_is_sum_of_four_npvs:
  assumes "calculate eng refDate a r = Inr r'"
  shows "results_value r' = defaultLegNPV r' + couponLegNPV r' + upfrontNPV r' + accrualRebateNPV r'
       \<and> (\<forall>x. \<exists>r''. calculate eng refDate (a\<lparr>accrualRebateCurrent := x\<rparr>) r = Inr r''
              \<and> results_value r'' = results_value r'
              \<and> defaultLegNPV r'' = defaultLegNPV r'
              \<and> couponLegNPV r'' = couponLegNPV r'
              \<and> upfrontNPV r'' = upfrontNPV r'
              \<and> accrualRebateNPV r'' = accrualRebateNPV r'
              \<and> errorEstimate r'' = errorEstimate r'
              \<and> fairSpreadDirty r'' = fairSpreadDirty r'
              \<and> fairUpfront r'' = fairUpfront r'
              \<and> couponLegBPS r'' = couponLegBPS r'
              \<and> upfrontBPS r'' = upfrontBPS r')
       \<and> fairSpreadClean r' =
           (if couponLegNPV r' \<noteq> 0
            then fdiv (- defaultLegNPV r' * spread a) (couponLegNPV r' + accrualRebateNPVCurrent r')
            else NullValue)
       \<and> additionalResults r' ''accrualRebateNPVCurrent''
           = Some (AnyReal (accrualRebateNPVCurrent r'))
       \<and> additionalResults r' ''premiumLegNPVClean''
           = Some (AnyReal (couponLegNPV r' + accrualRebateNPVCurrent r'))"
proof (intro conjI allI)
  note n = calculate_npvs[OF assms]
  note d = calculate_derived[OF assms]
  show "results_value r' = defaultLegNPV r' + couponLegNPV r' + upfrontNPV r' + accrualRebateNPV r'"
    by (rule d(1))
  show "fairSpreadClean r' =
           (if couponLegNPV r' \<noteq> 0
            then fdiv (- defaultLegNPV r' * spread a) (couponLegNPV r' + accrualRebateNPVCurrent r')
            else NullValue)"
    by (rule d(4))
  from assms obtain upfPVO1 upfrontSign r2 where
    ra: "record_additional a (derived_outputs a upfPVO1 upfrontSign r2) = Inr r'"
    by (rule calculate_InrE)
  note f = record_additional_fields[OF ra] derived_outputs_fields
  show "additionalResults r' ''accrualRebateNPVCurrent''
           = Some (AnyReal (accrualRebateNPVCurrent r'))"
    using record_additional_entries(2)[OF ra] by (simp add: f)
  show "additionalResults r' ''premiumLegNPVClean''
           = Some (AnyReal (couponLegNPV r' + accrualRebateNPVCurrent r'))"
    using record_additional_entries(3)[OF ra] by (simp add: f)
  fix x
  let ?a = "a\<lparr>accrualRebateCurrent := x\<rparr>"
  from assms have "\<exists>y. calculate eng refDate a r = Inr y" by blast
  then have "\<exists>y. calculate eng refDate ?a r = Inr y"
    unfolding calculate_succeeds_iff by (simp add: leg_ok_rebate_current)
  then obtain r'' where r'': "calculate eng refDate ?a r = Inr r''" ..
  note n' = calculate_npvs[OF r'']
  note d' = calculate_derived[OF r'']
  have e: "defaultLegNPV r'' = defaultLegNPV r'" "couponLegNPV r'' = couponLegNPV r'"
    "upfrontNPV r'' = upfrontNPV r'" "accrualRebateNPV r'' = accrualRebateNPV r'"
    by (simp_all add: n n' terms_rebate_current)
  have "results_value r'' = results_value r'" by (simp add: d(1) d'(1) e)
  moreover have "errorEstimate r'' = errorEstimate r'" by (simp add: d(2) d'(2))
  moreover have "fairSpreadDirty r'' = fairSpreadDirty r'" by (simp add: d(3) d'(3) e)
  moreover have "fairUpfront r'' = fairUpfront r'"
    by (simp add: d(5) d'(5) e upfront_pv01_rebate_current)
  moreover have "couponLegBPS r'' = couponLegBPS r'" by (simp add: d(6) d'(6) e)
  moreover have "upfrontBPS r'' = upfrontBPS r'" by (simp add: d(7) d'(7) e split: option.splits)
  ultimately show "\<exists>r''. calculate eng refDate ?a r = Inr r''
              \<and> results_value r'' = results_value r'
              \<and> defaultLegNPV r'' = defaultLegNPV r'
              \<and> couponLegNPV r'' = couponLegNPV r'
              \<and> upfrontNPV r'' = upfrontNPV r'
              \<and> accrualRebateNPV r'' = accrualRebateNPV r'
              \<and> errorEstimate r'' = errorEstimate r'
              \<and> fairSpreadDirty r'' = fairSpreadDirty r'
              \<and> fairUpfront r'' = fairUpfront r'
              \<and> couponLegBPS r'' = couponLegBPS r'
              \<and> upfrontBPS r'' = upfrontBPS r'"
    using r'' e by blast
qed

theorem value_is_sum_of_four_npvs_witness:
  "map_sum id (\<lambda>r. (results_value r, defaultLegNPV r, couponLegNPV r, upfrontNPV r,
                     accrualRebateNPV r, accrualRebateNPVCurrent r))
     (calculate flat_engine 45000 rebate_arguments blank_results)
     = Inr (0, 0, - 2500, 0, 2500, 2500)"
proof -
  have "\<exists>r'. calculate flat_engine 45000 rebate_arguments blank_results = Inr r'"
    unfolding calculate_succeeds_iff using rebate_leg_ok
    by (simp add: rebate_arguments_def example_arguments_def)
  then obtain r' where r': "calculate flat_engine 45000 rebate_arguments blank_results = Inr r'" ..
  have live: "live_coupons flat_engine 0 (leg rebate_arguments) = [(0, example_coupon)]"
    by (simp add: flat_engine_def rebate_arguments_def example_arguments_def example_coupon_def)
  have t: "coupon_term flat_engine rebate_arguments (0, example_coupon) = 2500"
    "default_term flat_engine rebate_arguments (0, example_coupon) = 0"
    by (simp_all add: coupon_term_def default_term_def expectedLoss_def flat_engine_def
        rebate_arguments_def example_arguments_def example_coupon_def)
  have s: "side rebate_arguments = Buyer"
    by (simp add: rebate_arguments_def example_arguments_def)
  have fl: "flow_npv flat_engine (accrualRebate rebate_arguments) = 2500"
    "flow_npv flat_engine (accrualRebateCurrent rebate_arguments) = 2500"
    "flow_npv flat_engine (upfrontPayment rebate_arguments) = 0"
    by (simp_all add: flow_npv_def flat_engine_def rebate_arguments_def example_arguments_def)
  have v: "defaultLegNPV r' = 0" "couponLegNPV r' = - 2500" "upfrontNPV r' = 0"
    "accrualRebateNPV r' = 2500" "accrualRebateNPVCurrent r' = 2500"
    using calculate_npvs[OF r'] by (simp_all add: live t s fl)
  from value_is_sum_of_four_npvs[OF r'] have "results_value r' = 0" by (simp add: v)
  with r' v show ?thesis by simp
qed

section \<open>Properties of the inflation curve\<close>

subsection \<open>The loops\<close>

lemma initial_data_eq: "initial_data n = replicate n 0"
proof -
  have r: "(replicate n (0::real))[0 := 0] = replicate n 0"
    by (cases n) simp_all
  have "foldl (\<lambda>d i. d[0 := 0]) (replicate n (0::real)) xs = replicate n 0" for xs :: "nat list"
    by (induction xs) (simp_all add: r)
  then show ?thesis by (simp add: initial_data_def)
qed

lemma copy_quotes_append:
  "copy_quotes store qs (xs @ ys) da =
     (case copy_quotes store qs xs da of
        Inl e \<Rightarrow> Inl e
      | Inr da' \<Rightarrow> copy_quotes store qs ys da')"
  by (induction xs arbitrary: da) simp_all

lemma copy_quotes_upt:
  assumes "n \<le> length qs" and "n \<le> length da"
  shows "copy_quotes store qs [0..<n] da = Inr (map store (take n qs) @ drop n da)"
  using assms
proof (induction n)
  case 0
  then show ?case by simp
next
  case (Suc n)
  then have ih: "copy_quotes store qs [0..<n] da = Inr (map store (take n qs) @ drop n da)"
    by simp
  from Suc.prems have n: "n < length qs" "n < length da" by simp_all
  have "(map store (take n qs) @ drop n da)[n := store (qs ! n)]
          = map store (take (Suc n) qs) @ drop (Suc n) da"
    using n by (simp add: take_Suc_conv_app_nth list_update_append Cons_nth_drop_Suc[symmetric])
  with n show ?case by (simp add: copy_quotes_append ih)
qed

lemma performCalculations_well_formed:
  assumes "well_formed c"
  shows "performCalculations store c =
           Inr (c\<lparr>curve_data := map store (curve_quotes c),
                  curve_interpolation := (curve_times c, map store (curve_quotes c))\<rparr>)"
proof -
  from assms have "copy_quotes store (curve_quotes c) [0..<length (curve_dates c)] (curve_data c)
      = Inr (map store (curve_quotes c))"
    using copy_quotes_upt[of "length (curve_dates c)" "curve_quotes c" "curve_data c" store]
    by (simp add: well_formed_def)
  then show ?thesis by (simp add: performCalculations_def)
qed

lemma calculate_dirty:
  assumes "well_formed c" and "dirty c"
  shows "LazyObject_calculate store c = Inr (recalculated store c)"
  using assms by (simp add: LazyObject_calculate_def performCalculations_well_formed recalculated_def)

lemma calculate_clean:
  assumes "\<not> dirty c"
  shows "LazyObject_calculate store c = Inr c"
  using assms by (simp add: LazyObject_calculate_def)

lemma recalculated_fields:
  "well_formed c \<Longrightarrow> well_formed (recalculated store c)"
  "\<not> dirty (recalculated store c)"
  "interpolator (recalculated store c) = interpolator c"
  "curve_interpolation (recalculated store c) = (curve_times c, map store (curve_quotes c))"
  "curve_data (recalculated store c) = map store (curve_quotes c)"
  "curve_dates (recalculated store c) = curve_dates c"
  "curve_times (recalculated store c) = curve_times c"
  "curve_quotes (recalculated store c) = curve_quotes c"
  "recalculations (recalculated store c) = recalculations c + 1"
  by (simp_all add: recalculated_def well_formed_def)

lemma update_eq: "update c = c\<lparr>dirty := True, notifications := notifications c + 1\<rparr>"
  by (simp add: update_def LazyObject_update_def TermStructure_update_def)

lemma update_fields:
  "well_formed c \<Longrightarrow> well_formed (update c)"
  "dirty (update c)"
  "interpolator (update c) = interpolator c"
  "curve_quotes (update c) = curve_quotes c"
  "curve_times (update c) = curve_times c"
  by (simp_all add: update_eq well_formed_def)

lemma consecutive_reads_clean:
  assumes "\<not> dirty c"
  shows "consecutive_reads store c ts =
           Inr (map (interpolator c (fst (curve_interpolation c)) (snd (curve_interpolation c))) ts, c)"
  using assms
  by (induction ts) (simp_all add: yoyRateImpl_def calculate_clean)

lemma consecutive_reads_dirty:
  assumes "well_formed c" and "dirty c"
  shows "consecutive_reads store c ts =
           Inr (map (interpolator c (curve_times c) (map store (curve_quotes c))) ts,
                if ts = [] then c else recalculated store c)"
proof (cases ts)
  case Nil
  then show ?thesis by simp
next
  case (Cons t ts')
  then show ?thesis
    using assms
    by (simp add: yoyRateImpl_def calculate_dirty recalculated_fields consecutive_reads_clean)
qed

subsection \<open>The constructor\<close>

lemma node_loop_error:
  "node_loop cv ds da is ts = Inl e \<Longrightarrow> \<exists>m. e = Require m"
  by (induction "is" arbitrary: ts) (auto simp: Let_def split: if_splits)

lemma node_loop_upt:
  assumes "1 \<le> a" and "n \<le> length ts"
    and "ts ! (a - 1) = timeFromReference cv (ds ! (a - 1))"
    and "\<forall>i. a \<le> i \<and> i < n \<longrightarrow> da ! i > - 1"
  shows "(nodes_ok cv ds a n \<longrightarrow>
            (\<exists>ts'. node_loop cv ds da [a..<n] ts = Inr ts' \<and> length ts' = length ts
               \<and> (\<forall>i < length ts. ts' ! i =
                     (if a \<le> i \<and> i < n then timeFromReference cv (ds ! i) else ts ! i))))
       \<and> (\<not> nodes_ok cv ds a n \<longrightarrow> (\<exists>e. node_loop cv ds da [a..<n] ts = Inl e))"
  using assms
proof (induction "n - a" arbitrary: a ts)
  case 0
  then show ?case by (simp add: nodes_ok_def)
next
  case (Suc k)
  then have an: "a < n" by simp
  then have upt: "[a..<n] = a # [Suc a..<n]" by (simp add: upt_conv_Cons)
  let ?t = "timeFromReference cv"
  let ?ts = "ts[a := ?t (ds ! a)]"
  from Suc.prems an have la: "a < length ts" by simp
  from Suc.prems an have da: "da ! a > - 1" by simp
  have ok_split: "nodes_ok cv ds a n \<longleftrightarrow>
      (ds ! (a - 1) < ds ! a \<and> \<not> close cv (?t (ds ! a)) (?t (ds ! (a - 1))))
      \<and> nodes_ok cv ds (Suc a) n"
  proof
    assume ok: "nodes_ok cv ds a n"
    have "nodes_ok cv ds (Suc a) n"
      unfolding nodes_ok_def
    proof (intro allI impI)
      fix i assume "Suc a \<le> i \<and> i < n"
      then have "a \<le> i \<and> i < n" by simp
      with ok show "ds ! (i - 1) < ds ! i
        \<and> \<not> close cv (?t (ds ! i)) (?t (ds ! (i - 1)))"
        unfolding nodes_ok_def by blast
    qed
    moreover from ok an have "ds ! (a - 1) < ds ! a
        \<and> \<not> close cv (?t (ds ! a)) (?t (ds ! (a - 1)))"
      unfolding nodes_ok_def by blast
    ultimately show "(ds ! (a - 1) < ds ! a \<and> \<not> close cv (?t (ds ! a)) (?t (ds ! (a - 1))))
      \<and> nodes_ok cv ds (Suc a) n" by simp
  next
    assume r: "(ds ! (a - 1) < ds ! a \<and> \<not> close cv (?t (ds ! a)) (?t (ds ! (a - 1))))
      \<and> nodes_ok cv ds (Suc a) n"
    show "nodes_ok cv ds a n"
      unfolding nodes_ok_def
    proof (intro allI impI)
      fix i assume i: "a \<le> i \<and> i < n"
      show "ds ! (i - 1) < ds ! i \<and> \<not> close cv (?t (ds ! i)) (?t (ds ! (i - 1)))"
      proof (cases "i = a")
        case True
        with r show ?thesis by simp
      next
        case False
        with i have "Suc a \<le> i \<and> i < n" by simp
        with r show ?thesis unfolding nodes_ok_def by blast
      qed
    qed
  qed
  have ta: "?ts ! a = ?t (ds ! a)" using la by simp
  have tp: "?ts ! (a - 1) = ?t (ds ! (a - 1))" using Suc.prems(1,3) by simp
  have ih: "(nodes_ok cv ds (Suc a) n \<longrightarrow>
            (\<exists>ts'. node_loop cv ds da [Suc a..<n] ?ts = Inr ts' \<and> length ts' = length ?ts
               \<and> (\<forall>i < length ?ts. ts' ! i =
                     (if Suc a \<le> i \<and> i < n then ?t (ds ! i) else ?ts ! i))))
       \<and> (\<not> nodes_ok cv ds (Suc a) n \<longrightarrow> (\<exists>e. node_loop cv ds da [Suc a..<n] ?ts = Inl e))"
  proof (rule Suc.hyps(1))
    show "k = n - Suc a" using Suc.hyps(2) by simp
    show "1 \<le> Suc a" by simp
    show "n \<le> length ?ts" using Suc.prems by simp
    show "?ts ! (Suc a - 1) = ?t (ds ! (Suc a - 1))" using ta by simp
    show "\<forall>i. Suc a \<le> i \<and> i < n \<longrightarrow> - 1 < da ! i" using Suc.prems by simp
  qed
  show ?case
  proof (cases "ds ! (a - 1) < ds ! a \<and> \<not> close cv (?t (ds ! a)) (?t (ds ! (a - 1)))")
    case False
    then show ?thesis
      unfolding ok_split upt using da ta tp by (auto simp: Let_def)
  next
    case True
    then have step: "node_loop cv ds da [a..<n] ts = node_loop cv ds da [Suc a..<n] ?ts"
      unfolding upt using da ta tp by (simp add: Let_def)
    show ?thesis
    proof (cases "nodes_ok cv ds (Suc a) n")
      case False
      with ih show ?thesis unfolding ok_split step by simp
    next
      case ok: True
      with ih obtain ts' where r: "node_loop cv ds da [Suc a..<n] ?ts = Inr ts'"
        and l: "length ts' = length ?ts"
        and v: "\<forall>i < length ?ts. ts' ! i =
                     (if Suc a \<le> i \<and> i < n then ?t (ds ! i) else ?ts ! i)"
        by blast
      have "\<forall>i < length ts. ts' ! i = (if a \<le> i \<and> i < n then ?t (ds ! i) else ts ! i)"
      proof (intro allI impI)
        fix i assume i: "i < length ts"
        show "ts' ! i = (if a \<le> i \<and> i < n then ?t (ds ! i) else ts ! i)"
        proof (cases "i = a")
          case True
          with v i an la show ?thesis by simp
        next
          case False
          with v i show ?thesis by (auto simp: le_Suc_eq)
        qed
      qed
      with r l True ok show ?thesis unfolding ok_split step by simp
    qed
  qed
qed

lemma length_node_dates: "length (node_dates cv dates) = length dates"
  by (simp add: node_dates_def)

lemma construct_nonempty:
  assumes "quotes \<noteq> []"
  shows "(valid_nodes cv dates quotes \<longrightarrow>
            construct cv interp store dates quotes = Inr (constructed cv interp store dates quotes))
       \<and> (\<not> valid_nodes cv dates quotes \<longrightarrow>
            (\<exists>m. construct cv interp store dates quotes = Inl (Require m)))"
proof -
  from assms obtain q0 qs where quotes: "quotes = q0 # qs" by (cases quotes) auto
  let ?ds = "node_dates cv dates"
  let ?n = "length dates"
  let ?t = "timeFromReference cv"
  let ?ts0 = "(replicate ?n 0)[0 := ?t (?ds ! 0)]"
  have ds: "(if \<not> indexIsInterpolated cv then map (\<lambda>d. fst (inflationPeriod cv d)) dates
             else dates) = ?ds"
    by (simp add: node_dates_def)
  show ?thesis
  proof (cases "?n > 1 \<and> length quotes = ?n")
    case False
    then show ?thesis
      by (auto simp: construct_def quotes valid_nodes_def Let_def ds length_node_dates
          simp del: One_nat_def)
  next
    case True
    then have n: "?n > 1" and lr: "length quotes = ?n" by simp_all
    have c: "construct cv interp store dates quotes =
        (case node_loop cv ?ds (replicate ?n 0) [1..<?n] ?ts0 of
           Inl e \<Rightarrow> Inl e
         | Inr ts \<Rightarrow>
             Inr \<lparr>curve_dates = ?ds, curve_quotes = quotes, curve_times = ts,
                  curve_data = replicate ?n 0, curve_interpolation = (ts, replicate ?n 0),
                  interpolator = interp, baseRate = store q0, dirty = True,
                  recalculations = 0, notifications = 0\<rparr>)"
      using n lr unfolding construct_def ds
      by (simp add: quotes Let_def length_node_dates initial_data_eq del: One_nat_def)
    have loop: "(nodes_ok cv ?ds 1 ?n \<longrightarrow>
            (\<exists>ts'. node_loop cv ?ds (replicate ?n 0) [1..<?n] ?ts0 = Inr ts'
               \<and> length ts' = length ?ts0
               \<and> (\<forall>i < length ?ts0. ts' ! i =
                     (if 1 \<le> i \<and> i < ?n then ?t (?ds ! i) else ?ts0 ! i))))
       \<and> (\<not> nodes_ok cv ?ds 1 ?n \<longrightarrow>
            (\<exists>e. node_loop cv ?ds (replicate ?n 0) [1..<?n] ?ts0 = Inl e))"
    proof (rule node_loop_upt)
      show "1 \<le> (1::nat)" by simp
      show "?n \<le> length ?ts0" by simp
      from n have "0 < ?n" by (cases dates) simp_all
      then show "?ts0 ! (1 - 1) = ?t (?ds ! (1 - 1))" by simp
      show "\<forall>i. 1 \<le> i \<and> i < ?n \<longrightarrow> - 1 < replicate ?n (0::real) ! i" by simp
    qed
    show ?thesis
    proof (cases "nodes_ok cv ?ds 1 ?n")
      case False
      with loop obtain e where e: "node_loop cv ?ds (replicate ?n 0) [1..<?n] ?ts0 = Inl e"
        by blast
      from node_loop_error[OF e] obtain m where "e = Require m" ..
      with False show ?thesis unfolding c e by (simp add: valid_nodes_def)
    next
      case True
      with loop obtain ts' where r: "node_loop cv ?ds (replicate ?n 0) [1..<?n] ?ts0 = Inr ts'"
        and l: "length ts' = length ?ts0"
        and v: "\<forall>i < length ?ts0. ts' ! i =
                     (if 1 \<le> i \<and> i < ?n then ?t (?ds ! i) else ?ts0 ! i)"
        by blast
      have "ts' = map ?t ?ds"
      proof (rule nth_equalityI)
        show "length ts' = length (map ?t ?ds)" using l by (simp add: length_node_dates)
        fix i assume "i < length ts'"
        with l have i: "i < ?n" by simp
        show "ts' ! i = map ?t ?ds ! i"
        proof (cases i)
          case 0
          with v i n show ?thesis by (simp add: length_node_dates)
        next
          case (Suc j)
          with v i show ?thesis by (simp add: length_node_dates)
        qed
      qed
      with True n lr show ?thesis
        unfolding c r by (simp add: valid_nodes_def constructed_def quotes)
    qed
  qed
qed

lemma construct_empty:
  "construct cv interp store dates [] = Inl (Undefined ''rates[0] of an empty vector'')"
  by (simp add: construct_def)

lemma construct_Inr:
  assumes "construct cv interp store dates quotes = Inr c"
  shows "quotes \<noteq> []" and "valid_nodes cv dates quotes"
    and "c = constructed cv interp store dates quotes"
proof -
  show ne: "quotes \<noteq> []" using assms by (auto simp: construct_empty)
  from construct_nonempty[OF ne, of cv dates interp store] assms
  show v: "valid_nodes cv dates quotes" by (cases "valid_nodes cv dates quotes") auto
  from construct_nonempty[OF ne, of cv dates interp store] assms v
  show "c = constructed cv interp store dates quotes" by simp
qed

lemma constructed_well_formed:
  assumes "length quotes = length dates"
  shows "well_formed (constructed cv interp store dates quotes)"
  using assms by (simp add: well_formed_def constructed_def length_node_dates)

lemma nodes_ok_sorted:
  assumes "nodes_ok cv ds 1 (length ds)"
  shows "sorted_wrt (<) ds"
proof -
  have "\<forall>i. Suc i < length ds \<longrightarrow> ds ! i < ds ! Suc i"
    using assms unfolding nodes_ok_def by (metis One_nat_def Suc_le_mono diff_Suc_1 le0)
  then show ?thesis
    by (simp add: sorted_wrt_iff_nth_Suc_transp)
qed

lemma not_sorted_snapped:
  assumes "mono (\<lambda>d. fst (inflationPeriod cv d))" and "\<not> sorted_wrt (<) dates"
  shows "\<not> sorted_wrt (<) (node_dates cv dates)"
proof (cases "indexIsInterpolated cv")
  case True
  with assms show ?thesis by (simp add: node_dates_def)
next
  case False
  let ?f = "\<lambda>d. fst (inflationPeriod cv d)"
  from assms(2) obtain i j where ij: "i < j" "j < length dates" "\<not> dates ! i < dates ! j"
    by (auto simp: sorted_wrt_iff_nth_less)
  then have "dates ! j \<le> dates ! i" by simp
  with assms(1) have "?f (dates ! j) \<le> ?f (dates ! i)" by (rule monoD)
  with ij have "\<not> map ?f dates ! i < map ?f dates ! j" by simp
  with ij show ?thesis
    using False by (auto simp: node_dates_def sorted_wrt_iff_nth_less)
qed

lemma construct_validates:
  assumes "quotes \<noteq> []"
  shows "(\<exists>c. construct cv interp store dates quotes = Inr c) \<longleftrightarrow> valid_nodes cv dates quotes"
    and "construct cv interp store dates quotes = Inl e \<Longrightarrow> \<exists>m. e = Require m"
    and "mono (\<lambda>d. fst (inflationPeriod cv d)) \<Longrightarrow> \<not> sorted_wrt (<) dates
           \<Longrightarrow> \<exists>m. construct cv interp store dates quotes = Inl (Require m)"
proof -
  note c = construct_nonempty[OF assms, of cv dates interp store]
  show "(\<exists>c. construct cv interp store dates quotes = Inr c) \<longleftrightarrow> valid_nodes cv dates quotes"
    using c by (cases "valid_nodes cv dates quotes") auto
  show "\<exists>m. e = Require m" if "construct cv interp store dates quotes = Inl e"
    using c that by (cases "valid_nodes cv dates quotes") auto
  show "\<exists>m. construct cv interp store dates quotes = Inl (Require m)"
    if m: "mono (\<lambda>d. fst (inflationPeriod cv d))" and s: "\<not> sorted_wrt (<) dates"
  proof -
    from not_sorted_snapped[OF m s] have "\<not> nodes_ok cv (node_dates cv dates) 1 (length dates)"
      using nodes_ok_sorted[of cv "node_dates cv dates"] by (auto simp: length_node_dates)
    then have "\<not> valid_nodes cv dates quotes" by (simp add: valid_nodes_def)
    with c show ?thesis by simp
  qed
qed

subsection \<open>The example curve\<close>

lemma example_node_dates: "node_dates example_conventions [45010, 45045] = [45000, 45030]"
  by (simp add: node_dates_def example_conventions_def)

lemma example_valid: "valid_nodes example_conventions [45010, 45045] [0, 1]"
proof -
  have "i = 1" if "1 \<le> i \<and> i < 2" for i :: nat using that by simp
  then have "nodes_ok example_conventions [45000, 45030] 1 2"
    unfolding nodes_ok_def by (auto simp: example_conventions_def)
  then show ?thesis by (simp add: valid_nodes_def example_node_dates numeral_2_eq_2)
qed

lemma example_construct:
  "construct example_conventions linear example_store [45010, 45045] [0, 1] = Inr example_curve"
proof -
  have "constructed example_conventions linear example_store [45010, 45045] [0, 1] = example_curve"
    unfolding constructed_def example_node_dates
    by (simp add: example_curve_def example_conventions_def example_store_def)
  with construct_nonempty[of "[0, 1]" example_conventions "[45010, 45045]" linear example_store]
    example_valid show ?thesis by simp
qed

lemma example_well_formed: "well_formed example_curve"
  by (simp add: well_formed_def example_curve_def)

subsection \<open>Lazy recalculation\<close>

lemma nodes_zip:
  assumes "length xs = length ys"
  shows "map (\<lambda>i. (xs ! i, ys ! i)) [0..<length xs] = zip xs ys"
proof (rule nth_equalityI)
  show "length (map (\<lambda>i. (xs ! i, ys ! i)) [0..<length xs]) = length (zip xs ys)"
    using assms by simp
  fix i assume "i < length (map (\<lambda>i. (xs ! i, ys ! i)) [0..<length xs])"
  then show "map (\<lambda>i. (xs ! i, ys ! i)) [0..<length xs] ! i = zip xs ys ! i"
    using assms by simp
qed

text \<open>
  Claim C3. \<^verbatim>\<open>update\<close> only sets the dirty flag and notifies the dependents; the data, the
  interpolation and the number of recalculations stay as they are. On a dirty curve each
  of \<^verbatim>\<open>yoyRateImpl\<close>, \<^verbatim>\<open>data\<close>, \<^verbatim>\<open>rates\<close> and \<^verbatim>\<open>nodes\<close> recalculates exactly once before it
  answers: the data become the current values of the quotes, the interpolation is rebuilt
  over all times and the new data, and the answer is taken from them; one or more
  consecutive calls of \<^verbatim>\<open>yoyRateImpl\<close> recalculate once in all. On a curve that is not dirty
  the answer comes from the interpolation as it stands and nothing is recalculated. So a
  change of a registered quote, which calls \<^verbatim>\<open>update\<close>, shows in the values only at the next
  request.
\<close>

theorem lazy_recalculation:
  assumes "well_formed c"
  shows "update c = c\<lparr>dirty := True, notifications := notifications c + 1\<rparr>
       \<and> well_formed (update c)
       \<and> (q \<in> set (curve_quotes c) \<longrightarrow> setValue q v (store, c) = (store(q := v), update c))
       \<and> recalculated store c =
            c\<lparr>curve_data := map store (curve_quotes c),
              curve_interpolation := (curve_times c, map store (curve_quotes c)),
              dirty := False, recalculations := recalculations c + 1\<rparr>
       \<and> (dirty c \<longrightarrow>
              yoyRateImpl store c t =
                Inr (interpolator c (curve_times c) (map store (curve_quotes c)) t,
                     recalculated store c)
            \<and> data store c = Inr (map store (curve_quotes c), recalculated store c)
            \<and> rates store c = Inr (map store (curve_quotes c), recalculated store c)
            \<and> nodes store c =
                Inr (zip (curve_dates c) (map store (curve_quotes c)), recalculated store c)
            \<and> (ts \<noteq> [] \<longrightarrow>
                 consecutive_reads store c ts =
                   Inr (map (interpolator c (curve_times c) (map store (curve_quotes c))) ts,
                        recalculated store c)))
       \<and> (\<not> dirty c \<longrightarrow>
              yoyRateImpl store c t =
                Inr (interpolator c (fst (curve_interpolation c)) (snd (curve_interpolation c)) t,
                     c)
            \<and> data store c = Inr (curve_data c, c)
            \<and> rates store c = Inr (curve_data c, c)
            \<and> consecutive_reads store c ts =
                Inr (map (interpolator c (fst (curve_interpolation c))
                            (snd (curve_interpolation c))) ts, c))"
proof (intro conjI impI)
  show "update c = c\<lparr>dirty := True, notifications := notifications c + 1\<rparr>"
    by (rule update_eq)
  show "well_formed (update c)" using assms by (rule update_fields(1))
  show "setValue q v (store, c) = (store(q := v), update c)" if "q \<in> set (curve_quotes c)"
    using that by (simp add: setValue_def)
  show "recalculated store c =
            c\<lparr>curve_data := map store (curve_quotes c),
              curve_interpolation := (curve_times c, map store (curve_quotes c)),
              dirty := False, recalculations := recalculations c + 1\<rparr>"
    by (simp add: recalculated_def)
next
  assume d: "dirty c"
  note calc = calculate_dirty[OF assms d]
  show "yoyRateImpl store c t =
                Inr (interpolator c (curve_times c) (map store (curve_quotes c)) t,
                     recalculated store c)"
    by (simp add: yoyRateImpl_def calc recalculated_fields)
  show "data store c = Inr (map store (curve_quotes c), recalculated store c)"
    by (simp add: data_def calc recalculated_fields)
  show "rates store c = Inr (map store (curve_quotes c), recalculated store c)"
    by (simp add: rates_def calc recalculated_fields)
  have l: "length (curve_dates c) = length (map store (curve_quotes c))"
    using assms by (simp add: well_formed_def)
  show "nodes store c =
                Inr (zip (curve_dates c) (map store (curve_quotes c)), recalculated store c)"
    using nodes_zip[OF l] l by (simp add: nodes_def calc recalculated_fields)
  show "consecutive_reads store c ts =
                   Inr (map (interpolator c (curve_times c) (map store (curve_quotes c))) ts,
                        recalculated store c)" if "ts \<noteq> []"
    using that by (simp add: consecutive_reads_dirty[OF assms d])
next
  assume d: "\<not> dirty c"
  note calc = calculate_clean[OF d]
  show "yoyRateImpl store c t =
                Inr (interpolator c (fst (curve_interpolation c)) (snd (curve_interpolation c)) t,
                     c)"
    by (simp add: yoyRateImpl_def calc)
  show "data store c = Inr (curve_data c, c)" by (simp add: data_def calc)
  show "rates store c = Inr (curve_data c, c)" by (simp add: rates_def calc)
  show "consecutive_reads store c ts =
                Inr (map (interpolator c (fst (curve_interpolation c))
                            (snd (curve_interpolation c))) ts, c)"
    by (rule consecutive_reads_clean[OF d])
qed

theorem lazy_recalculation_witness:
  "map_sum id (\<lambda>yc. (fst yc, recalculations (snd yc)))
     (yoyRateImpl example_store example_curve (1 / 24)) = Inr (25 / 1000, 1)
   \<and> curve_data (snd (setValue 1 (5 / 100)
        (example_store, recalculated example_store example_curve))) = [2 / 100, 3 / 100]
   \<and> map_sum id (\<lambda>yc. (fst yc, recalculations (snd yc)))
       (consecutive_reads (example_store(1 := 5 / 100))
          (update (recalculated example_store example_curve)) [1 / 24, 1 / 24, 1 / 24])
     = Inr ([35 / 1000, 35 / 1000, 35 / 1000], 2)"
proof -
  let ?c1 = "recalculated example_store example_curve"
  let ?s2 = "example_store(1 := 5 / 100)"
  have d0: "dirty example_curve" by (simp add: example_curve_def)
  have w1: "well_formed ?c1" using example_well_formed by (rule recalculated_fields(1))
  have q: "(1::nat) \<in> set (curve_quotes ?c1)"
    by (simp add: recalculated_def example_curve_def)
  have f: "curve_times example_curve = [0, 1 / 12]" "curve_quotes example_curve = [0, 1]"
    "interpolator example_curve = linear" "recalculations example_curve = 0"
    by (simp_all add: example_curve_def)
  from lazy_recalculation[OF example_well_formed, of _ _ example_store "1 / 24"] d0
  have r1: "yoyRateImpl example_store example_curve (1 / 24) =
      Inr (linear [0, 1 / 12] (map example_store [0, 1]) (1 / 24), ?c1)"
    by (simp add: f)
  have a: "map_sum id (\<lambda>yc. (fst yc, recalculations (snd yc)))
     (yoyRateImpl example_store example_curve (1 / 24)) = Inr (25 / 1000, 1)"
    unfolding r1 by (simp add: recalculated_def f example_store_def)
  from lazy_recalculation[OF w1, of 1 "5 / 100" example_store] q
  have s: "setValue 1 (5 / 100) (example_store, ?c1) = (?s2, update ?c1)" by blast
  have b: "curve_data (snd (setValue 1 (5 / 100) (example_store, ?c1))) = [2 / 100, 3 / 100]"
    unfolding s by (simp add: update_eq recalculated_def f example_store_def)
  have w2: "well_formed (update ?c1)" using w1 by (rule update_fields(1))
  have d2: "dirty (update ?c1)" by (rule update_fields(2))
  note blk = lazy_recalculation[OF w2, of 1 0 ?s2 0 "[1 / 24, 1 / 24, 1 / 24]",
      THEN conjunct2, THEN conjunct2, THEN conjunct2, THEN conjunct2, THEN conjunct1,
      THEN mp, OF d2]
  have r2: "consecutive_reads ?s2 (update ?c1) [1 / 24, 1 / 24, 1 / 24] =
      Inr (map (interpolator (update ?c1) (curve_times (update ?c1))
                 (map ?s2 (curve_quotes (update ?c1)))) [1 / 24, 1 / 24, 1 / 24],
           recalculated ?s2 (update ?c1))"
    by (rule blk[THEN conjunct2, THEN conjunct2, THEN conjunct2, THEN conjunct2, THEN mp]) simp
  have c: "map_sum id (\<lambda>yc. (fst yc, recalculations (snd yc)))
       (consecutive_reads ?s2 (update ?c1) [1 / 24, 1 / 24, 1 / 24])
     = Inr ([35 / 1000, 35 / 1000, 35 / 1000], 2)"
    unfolding r2 by (simp add: update_eq recalculated_def f example_store_def)
  from a b c show ?thesis by simp
qed

subsection \<open>Validation in the constructor\<close>

text \<open>
  Claim C5. The claim is that the constructor fails with a validation error on every
  invalid node set, in particular when the number of quotes differs from the number of
  dates. With at least one quote this is what the constructor does (lemma
  \<open>construct_validates\<close>: it returns exactly on the valid node sets, every failure is a
  \<^verbatim>\<open>QL_REQUIRE\<close> failure, and a sequence of dates that is not strictly increasing is
  rejected when the start of the inflation period is monotone in the date). With two dates
  and no quote, the initialiser of the base class reads \<^verbatim>\<open>rates[0]\<close> of the empty vector
  before any check of the body runs: undefined behaviour, not a validation error.
\<close>

theorem construct_reads_first_quote_unchecked:
  "construct example_conventions linear example_store [45010, 45045] []
     = Inl (Undefined ''rates[0] of an empty vector'')"
  by (rule construct_empty)

subsection \<open>The dates and times are fixed at construction\<close>

lemma performCalculations_frame:
  assumes "performCalculations store c = Inr c'"
  shows "c' = c\<lparr>curve_data := curve_data c', curve_interpolation := curve_interpolation c'\<rparr>"
    and "curve_dates c' = curve_dates c" and "curve_times c' = curve_times c"
    and "curve_quotes c' = curve_quotes c"
  using assms by (auto simp: performCalculations_def split: sum.splits)

lemma calculate_frame:
  assumes "LazyObject_calculate store c = Inr c'"
  shows "curve_dates c' = curve_dates c" and "curve_times c' = curve_times c"
  using assms
  by (auto simp: LazyObject_calculate_def performCalculations_def split: sum.splits if_splits)

text \<open>
  Claim C7. The constructor keeps, for an index that is not interpolated, the first date
  of the inflation period of every input date (and the input dates themselves for an
  interpolated index). A recalculation of the constructed curve succeeds and changes the
  data and the interpolation only; on any curve, \<^verbatim>\<open>performCalculations\<close>, the calculation on
  request and \<^verbatim>\<open>update\<close> leave the dates, the times and the quotes as they are, so the dates
  are never pulled back again.
\<close>

theorem dates_snapped_at_construction_only:
  assumes "construct cv interp store dates quotes = Inr c"
  shows "curve_dates c =
           (if indexIsInterpolated cv then dates
            else map (\<lambda>d. fst (inflationPeriod cv d)) dates)
       \<and> curve_times c = map (timeFromReference cv) (curve_dates c)
       \<and> (\<exists>c'. performCalculations store' c = Inr c'
              \<and> c' = c\<lparr>curve_data := curve_data c',
                        curve_interpolation := curve_interpolation c'\<rparr>
              \<and> curve_dates c' = curve_dates c \<and> curve_times c' = curve_times c)
       \<and> (performCalculations store' c0 = Inr c1 \<longrightarrow>
              c1 = c0\<lparr>curve_data := curve_data c1,
                       curve_interpolation := curve_interpolation c1\<rparr>
            \<and> curve_dates c1 = curve_dates c0 \<and> curve_times c1 = curve_times c0
            \<and> curve_quotes c1 = curve_quotes c0)
       \<and> (LazyObject_calculate store' c0 = Inr c1 \<longrightarrow>
              curve_dates c1 = curve_dates c0 \<and> curve_times c1 = curve_times c0)
       \<and> curve_dates (update c0) = curve_dates c0
       \<and> curve_times (update c0) = curve_times c0"
proof -
  note k = construct_Inr[OF assms]
  have wf: "well_formed c"
    using k(2) unfolding k(3) by (intro constructed_well_formed) (simp add: valid_nodes_def)
  have d: "curve_dates c =
           (if indexIsInterpolated cv then dates
            else map (\<lambda>d. fst (inflationPeriod cv d)) dates)"
    by (simp add: k(3) constructed_def node_dates_def)
  have t: "curve_times c = map (timeFromReference cv) (curve_dates c)"
    by (simp add: k(3) constructed_def)
  have p: "\<exists>c'. performCalculations store' c = Inr c'
              \<and> c' = c\<lparr>curve_data := curve_data c',
                        curve_interpolation := curve_interpolation c'\<rparr>
              \<and> curve_dates c' = curve_dates c \<and> curve_times c' = curve_times c"
    by (simp add: performCalculations_well_formed[OF wf])
  have f: "performCalculations store' c0 = Inr c1 \<longrightarrow>
              c1 = c0\<lparr>curve_data := curve_data c1,
                       curve_interpolation := curve_interpolation c1\<rparr>
            \<and> curve_dates c1 = curve_dates c0 \<and> curve_times c1 = curve_times c0
            \<and> curve_quotes c1 = curve_quotes c0"
    using performCalculations_frame[of store' c0 c1] by blast
  have g: "LazyObject_calculate store' c0 = Inr c1 \<longrightarrow>
              curve_dates c1 = curve_dates c0 \<and> curve_times c1 = curve_times c0"
    using calculate_frame[of store' c0 c1] by blast
  have u: "curve_dates (update c0) = curve_dates c0" "curve_times (update c0) = curve_times c0"
    by (simp_all add: update_eq)
  from d t p f g u show ?thesis by blast
qed

theorem dates_snapped_at_construction_only_witness:
  "map_sum id curve_dates
     (construct example_conventions linear example_store [45010, 45045] [0, 1])
     = Inr [45000, 45030]
   \<and> map_sum id (\<lambda>c. (curve_dates c, curve_times c, curve_data c))
       (performCalculations example_store example_curve)
     = Inr ([45000, 45030], [0, 1 / 12], [2 / 100, 3 / 100])"
proof -
  note t = dates_snapped_at_construction_only[OF example_construct,
      of example_store example_curve
         "example_curve\<lparr>curve_data := [2 / 100, 3 / 100],
                         curve_interpolation := ([0, 1 / 12], [2 / 100, 3 / 100])\<rparr>"]
  have d: "curve_dates example_curve = [45000, 45030]"
    using t[THEN conjunct1] by (simp add: example_conventions_def)
  have p: "performCalculations example_store example_curve =
      Inr (example_curve\<lparr>curve_data := [2 / 100, 3 / 100],
                         curve_interpolation := ([0, 1 / 12], [2 / 100, 3 / 100])\<rparr>)"
    using performCalculations_well_formed[OF example_well_formed, of example_store]
    by (simp add: example_curve_def example_store_def)
  from t[THEN conjunct2, THEN conjunct2, THEN conjunct2, THEN conjunct1, THEN mp, OF p]
  have "curve_dates (example_curve\<lparr>curve_data := [2 / 100, 3 / 100],
                         curve_interpolation := ([0, 1 / 12], [2 / 100, 3 / 100])\<rparr>)
          = curve_dates example_curve" by blast
  with d show ?thesis
    unfolding example_construct p by (simp add: example_curve_def)
qed

section \<open>Properties of the SIMM configuration\<close>

lemma filter_singleton_iff:
  assumes "distinct xs"
  shows "filter P xs = [x] \<longleftrightarrow> x \<in> set xs \<and> P x \<and> (\<forall>y \<in> set xs. P y \<longrightarrow> y = x)"
  using assms
proof (induction xs)
  case Nil
  then show ?case by simp
next
  case (Cons a xs)
  show ?case
  proof (cases "P a")
    case True
    have "filter P xs = [] \<longleftrightarrow> (\<forall>y \<in> set xs. \<not> P y)" by (simp add: filter_empty_conv)
    with True Cons.prems show ?thesis by auto
  next
    case False
    with Cons show ?thesis by auto
  qed
qed

lemma group_Inr_iff:
  assumes "distinct (map fst groups)"
  shows "group q groups = Inr k \<longleftrightarrow>
           (\<exists>s. (k, s) \<in> set groups \<and> q \<in> s)
         \<and> (\<forall>k' s'. (k', s') \<in> set groups \<and> q \<in> s' \<longrightarrow> k' = k)"
proof -
  from assms have d: "distinct groups" by (simp add: distinct_map)
  from assms have inj: "inj_on fst (set groups)" by (simp add: distinct_map)
  let ?P = "\<lambda>kv. q \<in> snd kv"
  have 1: "group q groups = Inr k \<longleftrightarrow> (\<exists>kv. filter ?P groups = [kv] \<and> fst kv = k)"
  proof (cases "filter ?P groups")
    case Nil
    show ?thesis unfolding group_def Nil by simp
  next
    case (Cons a as)
    show ?thesis unfolding group_def Cons by (cases as) simp_all
  qed
  have 2: "(\<exists>kv. filter ?P groups = [kv] \<and> fst kv = k) \<longleftrightarrow>
        (\<exists>kv. (kv \<in> set groups \<and> ?P kv \<and> (\<forall>y \<in> set groups. ?P y \<longrightarrow> y = kv))
                          \<and> fst kv = k)"
    unfolding filter_singleton_iff[OF d] ..
  have 3: "(\<exists>kv. (kv \<in> set groups \<and> ?P kv \<and> (\<forall>y \<in> set groups. ?P y \<longrightarrow> y = kv))
                          \<and> fst kv = k) \<longleftrightarrow>
         (\<exists>s. (k, s) \<in> set groups \<and> q \<in> s)
         \<and> (\<forall>k' s'. (k', s') \<in> set groups \<and> q \<in> s' \<longrightarrow> k' = k)"
  proof
    assume "\<exists>kv. (kv \<in> set groups \<and> ?P kv \<and> (\<forall>y \<in> set groups. ?P y \<longrightarrow> y = kv))
      \<and> fst kv = k"
    then obtain kv where kv: "kv \<in> set groups" "?P kv" "\<forall>y \<in> set groups. ?P y \<longrightarrow> y = kv"
      "fst kv = k" by blast
    obtain s0 where e: "kv = (k, s0)" using kv(4) by (cases kv) simp
    from kv(1,2) have a: "(k, s0) \<in> set groups \<and> q \<in> s0" unfolding e by simp
    have b: "k' = k" if "(k', s') \<in> set groups \<and> q \<in> s'" for k' s'
    proof -
      from that kv(3) have "(k', s') = kv" by fastforce
      then show ?thesis unfolding e by simp
    qed
    from a b show "(\<exists>s. (k, s) \<in> set groups \<and> q \<in> s)
         \<and> (\<forall>k' s'. (k', s') \<in> set groups \<and> q \<in> s' \<longrightarrow> k' = k)" by blast
  next
    assume r: "(\<exists>s. (k, s) \<in> set groups \<and> q \<in> s)
         \<and> (\<forall>k' s'. (k', s') \<in> set groups \<and> q \<in> s' \<longrightarrow> k' = k)"
    then obtain s where s: "(k, s) \<in> set groups" "q \<in> s" by blast
    have u: "y = (k, s)" if y: "y \<in> set groups" "?P y" for y
    proof -
      obtain k' s' where ys: "y = (k', s')" by (cases y)
      from y have "(k', s') \<in> set groups \<and> q \<in> s'" unfolding ys by simp
      with r have "k' = k" by blast
      then have e: "fst y = fst (k, s)" unfolding ys by simp
      from inj e y(1) s(1) show ?thesis by (rule inj_onD)
    qed
    show "\<exists>kv. (kv \<in> set groups \<and> ?P kv \<and> (\<forall>y \<in> set groups. ?P y \<longrightarrow> y = kv))
                          \<and> fst kv = k"
    proof (intro exI conjI ballI impI)
      show "(k, s) \<in> set groups" by (rule s(1))
      show "q \<in> snd (k, s)" using s(2) by simp
      show "y = (k, s)" if "y \<in> set groups" "q \<in> snd y" for y using that by (rule u)
      show "fst (k, s) = k" by simp
    qed
  qed
  note 1
  also note 2
  also note 3
  finally show ?thesis .
qed

lemma group_cases:
  "(\<exists>k. group q groups = Inr k) \<or> (\<exists>m. group q groups = Inl (Fail m))"
  by (auto simp: group_def split: list.splits)

text \<open>
  Claim C8. For groups with distinct indices, \<^verbatim>\<open>group\<close> returns an index exactly when that
  index is the only one whose set contains the qualifier. A qualifier in no group, or in
  the sets of two different indices, makes the lookup fail with a fatal error; no default
  is returned. Under the invariant that the sets are disjoint, every qualifier that occurs
  in a set is mapped to the index of that set.
\<close>

theorem group_unique_or_fatal:
  assumes "distinct (map fst groups)"
  shows "(group q groups = Inr k \<longleftrightarrow>
            (\<exists>s. (k, s) \<in> set groups \<and> q \<in> s)
          \<and> (\<forall>k' s'. (k', s') \<in> set groups \<and> q \<in> s' \<longrightarrow> k' = k))
       \<and> ((\<forall>kv \<in> set groups. q \<notin> snd kv) \<longrightarrow> (\<exists>m. group q groups = Inl (Fail m)))
       \<and> ((k1, s1) \<in> set groups \<and> (k2, s2) \<in> set groups \<and> k1 \<noteq> k2 \<and> q \<in> s1 \<and> q \<in> s2
            \<longrightarrow> (\<exists>m. group q groups = Inl (Fail m)))
       \<and> (disjoint_groups groups \<and> (k, s) \<in> set groups \<and> q \<in> s \<longrightarrow> group q groups = Inr k)"
proof (intro conjI impI)
  note iff = group_Inr_iff[OF assms]
  show "group q groups = Inr k \<longleftrightarrow>
            (\<exists>s. (k, s) \<in> set groups \<and> q \<in> s)
          \<and> (\<forall>k' s'. (k', s') \<in> set groups \<and> q \<in> s' \<longrightarrow> k' = k)"
    by (rule iff)
  show "\<exists>m. group q groups = Inl (Fail m)" if "\<forall>kv \<in> set groups. q \<notin> snd kv"
  proof -
    from that have "group q groups \<noteq> Inr k'" for k' unfolding iff by fastforce
    with group_cases[of q groups] show ?thesis by blast
  qed
  show "\<exists>m. group q groups = Inl (Fail m)"
    if "(k1, s1) \<in> set groups \<and> (k2, s2) \<in> set groups \<and> k1 \<noteq> k2 \<and> q \<in> s1 \<and> q \<in> s2"
  proof -
    from that have "group q groups \<noteq> Inr k'" for k' unfolding iff by blast
    with group_cases[of q groups] show ?thesis by blast
  qed
  show "group q groups = Inr k" if h: "disjoint_groups groups \<and> (k, s) \<in> set groups \<and> q \<in> s"
  proof -
    have "k' = k" if m: "(k', s') \<in> set groups \<and> q \<in> s'" for k' s'
    proof (rule ccontr)
      assume "k' \<noteq> k"
      then have "(k', s') \<noteq> (k, s)" by simp
      with h m have "s' \<inter> s = {}" unfolding disjoint_groups_def by fastforce
      with h m show False by blast
    qed
    with h show ?thesis unfolding iff by blast
  qed
qed

theorem group_unique_or_fatal_witness:
  "group ''RUB'' example_groups = Inr 1
   \<and> group ''ZAR'' example_groups = Inl (Fail ''qualifier is in no group'')
   \<and> group ''EUR'' ((2, set [''EUR'']) # example_groups)
       = Inl (Fail ''qualifier is in more than one group'')"
proof -
  have d: "distinct (map fst example_groups)" "disjoint_groups example_groups"
    by (simp_all add: example_groups_def disjoint_groups_def)
  have m: "(1, set [''BRL'', ''RUB'', ''TRY'']) \<in> set example_groups"
    "''RUB'' \<in> set [''BRL'', ''RUB'', ''TRY'']"
    by (simp_all add: example_groups_def)
  have "group ''RUB'' example_groups = Inr 1"
    by (rule group_unique_or_fatal[OF d(1), of "''RUB''" 1 0 "{}" 0 "{}"
          "set [''BRL'', ''RUB'', ''TRY'']",
          THEN conjunct2, THEN conjunct2, THEN conjunct2, THEN mp])
      (intro conjI d(2) m)
  moreover have "group ''ZAR'' example_groups = Inl (Fail ''qualifier is in no group'')"
    by (simp add: group_def example_groups_def)
  moreover have "group ''EUR'' ((2, set [''EUR'']) # example_groups)
       = Inl (Fail ''qualifier is in more than one group'')"
    by (simp add: group_def example_groups_def)
  ultimately show ?thesis by simp
qed

end
